theory Spec2Isabelle
  imports Complex_Main "HOL-Library.Sublist" "HOL-Library.AList"
begin

section \<open>Data model of the graph script\<close>

text \<open>
  Slugs are JavaScript strings. The content index maps a slug to the details of a page;
  only the fields that \<open>renderGraph\<close> reads are kept. \<open>links\<close> may be absent
  (\<open>details.links ?? []\<close>), \<open>filePath\<close> may be absent (\<open>details?.filePath\<close>).
\<close>

type_synonym FullSlug = string
type_synonym SimpleSlug = string

record ContentDetails =
  title :: string
  links :: "SimpleSlug list option"
  tags :: "string list"
  filePath :: "string option"

record SimpleLinkData =
  source :: SimpleSlug
  target :: SimpleSlug

record NodeData =
  nd_id :: SimpleSlug
  nd_text :: string
  nd_tags :: "string list"
  sourcePath :: "string option"
  isContentNode :: bool
  isConceptTopicNode :: bool
  isDatasetTopicNode :: bool
  isLibraryTopicNode :: bool
  isModelTopicNode :: bool
  isPlatformTopicNode :: bool
  isToolTopicNode :: bool

record LinkData =
  ld_source :: NodeData
  ld_target :: NodeData

record GraphData =
  gd_nodes :: "NodeData list"
  gd_links :: "LinkData list"

text \<open>
  The part of \<open>D3Config\<close> that the modelled code reads. The numeric fields are
  JavaScript numbers, that is IEEE doubles, parsed from JSON. \<open>depth\<close> is an integer
  in the specification's data model (\<open>depth: int\<close>), and the record keeps the integer
  that the double holds; the arithmetic done on it, \<open>depth--\<close>, is the double's (see
  \<open>js_decrement\<close> below). Not every integer above \<open>2^53\<close> is a double: the theorems
  take depths up to \<open>2^53\<close>, which all are, and the depth \<open>2^53 + 4\<close>, which is one.
  The two scales are idealised as reals.
\<close>

record D3Config =
  drag :: bool
  zoom :: bool
  depth :: int
  scale :: real
  opacityScale :: real
  removeTags :: "string list"
  showTags :: bool
  focusOnHover :: bool

datatype error = UndefinedEndpoint | LoopDiverges | BodyReadFailed | DestroyThrew

section \<open>JavaScript containers\<close>

text \<open>
  A \<open>Set\<close> iterates in insertion order and ignores a second \<open>add\<close> of the same
  value: a list without duplicates, extended at the end. A \<open>Map\<close> built from a list
  of entries keeps the position of the first occurrence of a key and the value of the
  last one, which is what \<open>AList.update\<close> does.
\<close>

definition set_add :: "'a list \<Rightarrow> 'a \<Rightarrow> 'a list" where
  "set_add s x = (if x \<in> set s then s else s @ [x])"

definition set_add_all :: "'a list \<Rightarrow> 'a list \<Rightarrow> 'a list" where
  "set_add_all s xs = foldl set_add s xs"

definition new_Map :: "('k \<times> 'v) list \<Rightarrow> ('k \<times> 'v) list" where
  "new_Map entries = foldl (\<lambda>m (k, v). AList.update k v m) [] entries"

definition startsWith :: "string \<Rightarrow> string \<Rightarrow> bool" where
  "startsWith s p = prefix p s"

definition includes_str :: "string \<Rightarrow> string \<Rightarrow> bool" where
  "includes_str s p = sublist p s"

section \<open>Building the link list\<close>

text \<open>
  \<open>simplifySlug\<close> lives in \<open>util/path\<close>, outside the files at hand: it is a
  parameter \<open>simplifySlug\<close> of everything below.

  One iteration of \<open>for (const [source, details] of data.entries())\<close>; the state is
  the pair of the arrays \<open>links\<close> and \<open>tags\<close>.
\<close>

definition localTags :: "(FullSlug \<Rightarrow> SimpleSlug) \<Rightarrow> D3Config \<Rightarrow> ContentDetails \<Rightarrow> SimpleSlug list" where
  "localTags simplifySlug cfg details =
     map (\<lambda>tag. simplifySlug (''tags/'' @ tag))
         (filter (\<lambda>tag. tag \<notin> set (removeTags cfg)) (tags details))"

definition link_step ::
  "(FullSlug \<Rightarrow> SimpleSlug) \<Rightarrow> D3Config \<Rightarrow> SimpleSlug list \<Rightarrow>
   SimpleLinkData list \<times> SimpleSlug list \<Rightarrow> SimpleSlug \<times> ContentDetails \<Rightarrow>
   SimpleLinkData list \<times> SimpleSlug list" where
  "link_step simplifySlug cfg validLinks st entry =
     (let (ls, tgs) = st;
          (src, details) = entry;
          outgoing = (case links details of None \<Rightarrow> [] | Some ds \<Rightarrow> ds);
          ls1 = ls @ map (\<lambda>dest. \<lparr>source = src, target = dest\<rparr>)
                         (filter (\<lambda>dest. dest \<in> set validLinks) outgoing)
      in if showTags cfg then
           (let lt = localTags simplifySlug cfg details
            in (ls1 @ map (\<lambda>tag. \<lparr>source = src, target = tag\<rparr>) lt,
                tgs @ filter (\<lambda>tag. tag \<notin> set tgs) lt))
         else (ls1, tgs))"

definition build_links ::
  "(FullSlug \<Rightarrow> SimpleSlug) \<Rightarrow> D3Config \<Rightarrow> (SimpleSlug \<times> ContentDetails) list \<Rightarrow>
   SimpleLinkData list \<times> SimpleSlug list" where
  "build_links simplifySlug cfg data =
     foldl (link_step simplifySlug cfg (map fst data)) ([], []) data"

definition index_data ::
  "(FullSlug \<Rightarrow> SimpleSlug) \<Rightarrow> (FullSlug \<times> ContentDetails) list \<Rightarrow> (SimpleSlug \<times> ContentDetails) list" where
  "index_data simplifySlug fetchData = new_Map (map (\<lambda>(k, v). (simplifySlug k, v)) fetchData)"

section \<open>The neighbourhood worklist\<close>

definition SENTINEL :: string where
  "SENTINEL = ''__SENTINEL''"

text \<open>
  The loop state is \<open>(depth, wl, neighbourhood)\<close>. \<open>wl.shift()\<close> takes the head,
  \<open>push\<close> appends. The loop may not return, so it is a partial function into
  \<open>option\<close>.
\<close>

type_synonym bfs_state = "int \<times> string list \<times> SimpleSlug list"

definition neighbours :: "SimpleLinkData list \<Rightarrow> SimpleSlug \<Rightarrow> SimpleSlug list" where
  "neighbours ls cur =
     map target (filter (\<lambda>l. source l = cur) ls) @ map source (filter (\<lambda>l. target l = cur) ls)"

text \<open>
  \<open>depth--\<close> on a double that holds an integer: the exact difference is rounded to the
  nearest double, a tie going to the even significand. A double has 53 bits of
  significand. Up to \<open>2^53 = 9007199254740992\<close> every integer is a double and the
  decrement is exact; above, the doubles are the multiples of \<open>ulp_of\<close>, and from
  \<open>2^53 + 4\<close> on the decrement gives back its argument
  (\<open>9007199254740996 - 1 === 9007199254740996\<close>).
\<close>

function ulp_of :: "int \<Rightarrow> int" where
  "ulp_of m = (if m < 9007199254740992 then 1 else 2 * ulp_of (m div 2))"
  by pat_completeness auto
termination
proof (relation "measure nat")
  show "wf (measure nat)" by (rule wf_measure)
next
  fix m :: int
  assume "\<not> m < 9007199254740992"
  then have "0 < m" by linarith
  then have "m div 2 < m" by simp
  with \<open>0 < m\<close> show "(m div 2, m) \<in> measure nat" by simp
qed

declare ulp_of.simps [simp del]

definition round_to_even :: "int \<Rightarrow> int \<Rightarrow> int" where
  "round_to_even u m =
     (let q = m div u; r = m mod u
      in if 2 * r < u then q * u
         else if u < 2 * r then (q + 1) * u
         else if even q then q * u else (q + 1) * u)"

definition round_double :: "int \<Rightarrow> int" where
  "round_double m = round_to_even (ulp_of \<bar>m\<bar>) m"

definition js_decrement :: "int \<Rightarrow> int" where
  "js_decrement d = round_double (d - 1)"

definition exact_limit :: int where
  "exact_limit = 9007199254740992"

definition bfs_cond :: "bfs_state \<Rightarrow> bool" where
  "bfs_cond s = (case s of (d, wl, nb) \<Rightarrow> d \<ge> 0 \<and> wl \<noteq> [])"

definition bfs_step :: "SimpleLinkData list \<Rightarrow> bfs_state \<Rightarrow> bfs_state" where
  "bfs_step ls s =
     (case s of (d, wl, nb) \<Rightarrow>
        (case wl of
           [] \<Rightarrow> s
         | cur # rest \<Rightarrow>
             if cur = SENTINEL then (js_decrement d, rest @ [SENTINEL], nb)
             else (d, rest @ neighbours ls cur, set_add nb cur)))"

partial_function (option) bfs_loop :: "SimpleLinkData list \<Rightarrow> bfs_state \<Rightarrow> bfs_state option" where
  "bfs_loop ls s = (if bfs_cond s then bfs_loop ls (bfs_step ls s) else Some s)"

declare bfs_loop.simps [code]

text \<open>\<open>const neighbourhood = new Set()\<close> and \<open>const wl = [slug, "__SENTINEL"]\<close>.\<close>

definition bfs_init :: "int \<Rightarrow> SimpleSlug \<Rightarrow> bfs_state" where
  "bfs_init d slug = (d, [slug, SENTINEL], [])"

definition depth_of :: "bfs_state \<Rightarrow> int" where
  "depth_of s = fst s"

definition wl_of :: "bfs_state \<Rightarrow> string list" where
  "wl_of s = fst (snd s)"

definition neighbourhood_of ::
  "SimpleLinkData list \<Rightarrow> SimpleSlug list \<Rightarrow> SimpleSlug list \<Rightarrow> D3Config \<Rightarrow> SimpleSlug \<Rightarrow>
   SimpleSlug list option" where
  "neighbourhood_of ls tgs validLinks cfg slug =
     (if depth cfg \<ge> 0 then
        map_option (\<lambda>s. snd (snd s)) (bfs_loop ls (bfs_init (depth cfg) slug))
      else
        Some (let nb = set_add_all [] validLinks
              in if showTags cfg then set_add_all nb tgs else nb))"

definition neighbourhood ::
  "(FullSlug \<Rightarrow> SimpleSlug) \<Rightarrow> (FullSlug \<times> ContentDetails) list \<Rightarrow> FullSlug \<Rightarrow> D3Config \<Rightarrow>
   SimpleSlug list option" where
  "neighbourhood simplifySlug fetchData fullSlug cfg =
     (let data = index_data simplifySlug fetchData;
          (ls, tgs) = build_links simplifySlug cfg data
      in neighbourhood_of ls tgs (map fst data) cfg (simplifySlug fullSlug))"

definition validLinks :: "(FullSlug \<Rightarrow> SimpleSlug) \<Rightarrow> (FullSlug \<times> ContentDetails) list \<Rightarrow> SimpleSlug list" where
  "validLinks simplifySlug fetchData = map fst (index_data simplifySlug fetchData)"

definition all_links ::
  "(FullSlug \<Rightarrow> SimpleSlug) \<Rightarrow> (FullSlug \<times> ContentDetails) list \<Rightarrow> D3Config \<Rightarrow> SimpleLinkData list" where
  "all_links simplifySlug fetchData cfg = fst (build_links simplifySlug cfg (index_data simplifySlug fetchData))"

definition all_tags ::
  "(FullSlug \<Rightarrow> SimpleSlug) \<Rightarrow> (FullSlug \<times> ContentDetails) list \<Rightarrow> D3Config \<Rightarrow> SimpleSlug list" where
  "all_tags simplifySlug fetchData cfg = snd (build_links simplifySlug cfg (index_data simplifySlug fetchData))"

subsection \<open>Reachability within a number of hops, as the specification words it\<close>

definition linked :: "SimpleLinkData list \<Rightarrow> SimpleSlug \<Rightarrow> SimpleSlug \<Rightarrow> bool" where
  "linked ls x y = (\<exists>l \<in> set ls. (source l = x \<and> target l = y) \<or> (source l = y \<and> target l = x))"

fun within_hops :: "SimpleLinkData list \<Rightarrow> nat \<Rightarrow> SimpleSlug \<Rightarrow> SimpleSlug set" where
  "within_hops ls 0 f = {f}"
| "within_hops ls (Suc d) f = within_hops ls d f \<union> {y. \<exists>x \<in> within_hops ls d f. linked ls x y}"

section \<open>Nodes and links of the rendered graph\<close>

text \<open>
  \<open>!!filePath && (filePath.startsWith(seg) || filePath.includes("/" + seg))\<close>: an absent
  or empty path is falsy.
\<close>

definition has_segment :: "string option \<Rightarrow> string \<Rightarrow> bool" where
  "has_segment fp seg =
     (case fp of
        None \<Rightarrow> False
      | Some p \<Rightarrow> p \<noteq> [] \<and> (startsWith p seg \<or> includes_str p (''/'' @ seg)))"

definition mk_node :: "(SimpleSlug \<times> ContentDetails) list \<Rightarrow> SimpleSlug \<Rightarrow> NodeData" where
  "mk_node data url =
     (let details = map_of data url;
          fp = (case details of None \<Rightarrow> None | Some d \<Rightarrow> filePath d)
      in \<lparr> nd_id = url,
           nd_text = (if startsWith url ''tags/'' then ''#'' @ drop 5 url
                      else (case details of None \<Rightarrow> url | Some d \<Rightarrow> title d)),
           nd_tags = (case details of None \<Rightarrow> [] | Some d \<Rightarrow> tags d),
           sourcePath = fp,
           isContentNode = has_segment fp ''contents/'',
           isConceptTopicNode = has_segment fp ''Concept/'',
           isDatasetTopicNode = has_segment fp ''Dataset/'',
           isLibraryTopicNode = has_segment fp ''Library/'',
           isModelTopicNode = has_segment fp ''Model/'',
           isPlatformTopicNode = has_segment fp ''Platform/'',
           isToolTopicNode = has_segment fp ''Tool/'' \<rparr>)"

definition isTagNode :: "NodeData \<Rightarrow> bool" where
  "isTagNode n = startsWith (nd_id n) ''tags/''"

text \<open>
  \<open>nodeMap.get(l.source)!\<close> asserts nothing at run time: an absent node would give an
  undefined endpoint, and the loop over \<open>graphData.links\<close> that follows reads
  \<open>l.source.id\<close> and throws. The model makes that an error value.
\<close>

definition resolve_link :: "(SimpleSlug \<times> NodeData) list \<Rightarrow> SimpleLinkData \<Rightarrow> error + LinkData" where
  "resolve_link nodeMap l =
     (case map_of nodeMap (source l) of
        None \<Rightarrow> Inl UndefinedEndpoint
      | Some s \<Rightarrow>
          (case map_of nodeMap (target l) of
             None \<Rightarrow> Inl UndefinedEndpoint
           | Some t \<Rightarrow> Inr \<lparr>ld_source = s, ld_target = t\<rparr>))"

fun resolve_links :: "(SimpleSlug \<times> NodeData) list \<Rightarrow> SimpleLinkData list \<Rightarrow> error + LinkData list" where
  "resolve_links nodeMap [] = Inr []"
| "resolve_links nodeMap (l # ls) =
     (case resolve_link nodeMap l of
        Inl e \<Rightarrow> Inl e
      | Inr r \<Rightarrow> (case resolve_links nodeMap ls of Inl e \<Rightarrow> Inl e | Inr rs \<Rightarrow> Inr (r # rs)))"

definition graphData_of ::
  "(SimpleSlug \<times> ContentDetails) list \<Rightarrow> SimpleLinkData list \<Rightarrow> SimpleSlug list \<Rightarrow> error + GraphData" where
  "graphData_of data ls nb =
     (let nodes = map (mk_node data) nb;
          nodeMap = new_Map (map (\<lambda>n. (nd_id n, n)) nodes)
      in case resolve_links nodeMap
                (filter (\<lambda>l. source l \<in> set nb \<and> target l \<in> set nb) ls) of
           Inl e \<Rightarrow> Inl e
         | Inr lks \<Rightarrow> Inr \<lparr>gd_nodes = nodes, gd_links = lks\<rparr>)"

definition graphData ::
  "(FullSlug \<Rightarrow> SimpleSlug) \<Rightarrow> (FullSlug \<times> ContentDetails) list \<Rightarrow> FullSlug \<Rightarrow> D3Config \<Rightarrow>
   error + GraphData" where
  "graphData simplifySlug fetchData fullSlug cfg =
     (case neighbourhood simplifySlug fetchData fullSlug cfg of
        None \<Rightarrow> Inl LoopDiverges
      | Some nb \<Rightarrow>
          graphData_of (index_data simplifySlug fetchData)
            (all_links simplifySlug fetchData cfg) nb)"

section \<open>The state of one mounted graph\<close>

text \<open>
  \<open>renderGraph\<close> keeps its state in local variables that its closures share. The
  record below holds the ones the modelled functions read or write. Pixi objects are
  reduced to the properties written here (a label's \<open>alpha\<close> and \<open>scale\<close>, the
  stage's transform); the popover elements appended to \<open>document.body\<close> are kept
  by their ids; \<open>frames\<close> counts the \<open>animate\<close> callbacks handed to
  \<open>requestAnimationFrame\<close> that have not run yet; \<open>destroy_calls\<close> counts the calls
  of \<open>app.destroy()\<close>. JavaScript numbers are idealised as reals.
\<close>

record LinkRenderData =
  l_simulationData :: LinkData
  l_color :: string
  l_alpha :: real
  l_active :: bool

record NodeRenderData =
  n_simulationData :: NodeData
  n_color :: string
  n_alpha :: real
  n_active :: bool
  label_alpha :: real
  label_scale :: real
  oldLabelOpacity :: real

record TweenNode =
  tw_start :: real
  tw_duration :: real

record Transform =
  t_k :: real
  t_x :: real
  t_y :: real

record graph_instance =
  hoveredNodeId :: "string option"
  hoveredNeighbours :: "string list"
  linkRenderData :: "LinkRenderData list"
  nodeRenderData :: "NodeRenderData list"
  dragging :: bool
  tweens :: "(string \<times> TweenNode) list"
  activePopover :: "string option"
  popoverTimeout :: "SimpleSlug option"
  hideTimeout :: bool
  altKeyDown :: bool
  document_popovers :: "string list"
  key_listeners :: bool
  currentTransform :: Transform
  stage_transform :: Transform
  stopAnimation :: bool
  animationRunning :: bool
  frames :: nat
  destroy_calls :: nat

definition zoomIdentity :: Transform where
  "zoomIdentity = \<lparr>t_k = 1, t_x = 0, t_y = 0\<rparr>"

text \<open>
  The state when \<open>renderGraph\<close> returns: one render record per node and per link, all
  inactive, labels transparent and scaled by \<open>1 / scale\<close>, the key listeners
  registered, \<open>animationRunning = true\<close> and one \<open>animate\<close> callback requested.
\<close>

definition mounted :: "D3Config \<Rightarrow> (NodeData \<Rightarrow> string) \<Rightarrow> string \<Rightarrow> GraphData \<Rightarrow> graph_instance" where
  "mounted cfg color lightgray g =
     \<lparr> hoveredNodeId = None,
       hoveredNeighbours = [],
       linkRenderData =
         map (\<lambda>l. \<lparr>l_simulationData = l, l_color = lightgray, l_alpha = 1, l_active = False\<rparr>)
             (gd_links g),
       nodeRenderData =
         map (\<lambda>n. \<lparr>n_simulationData = n, n_color = color n, n_alpha = 1, n_active = False,
                    label_alpha = 0, label_scale = 1 / scale cfg, oldLabelOpacity = 0\<rparr>)
             (gd_nodes g),
       dragging = False,
       tweens = [],
       activePopover = None,
       popoverTimeout = None,
       hideTimeout = False,
       altKeyDown = False,
       document_popovers = [],
       key_listeners = True,
       currentTransform = zoomIdentity,
       stage_transform = zoomIdentity,
       stopAnimation = False,
       animationRunning = True,
       frames = 1,
       destroy_calls = 0 \<rparr>"

section \<open>Hover\<close>

definition incident :: "string \<Rightarrow> LinkData \<Rightarrow> bool" where
  "incident h linkData = (nd_id (ld_source linkData) = h \<or> nd_id (ld_target linkData) = h)"

definition hover_neighbours :: "string \<Rightarrow> LinkRenderData list \<Rightarrow> string list" where
  "hover_neighbours h lrd =
     foldl (\<lambda>acc l.
              if incident h (l_simulationData l)
              then set_add (set_add acc (nd_id (ld_source (l_simulationData l))))
                           (nd_id (ld_target (l_simulationData l)))
              else acc)
           [] lrd"

definition updateHoverInfo :: "string option \<Rightarrow> graph_instance \<Rightarrow> graph_instance" where
  "updateHoverInfo newHoveredId st =
     (case newHoveredId of
        None \<Rightarrow>
          st\<lparr> hoveredNodeId := None,
              hoveredNeighbours := [],
              nodeRenderData := map (\<lambda>n. n\<lparr>n_active := False\<rparr>) (nodeRenderData st),
              linkRenderData := map (\<lambda>l. l\<lparr>l_active := False\<rparr>) (linkRenderData st) \<rparr>
      | Some h \<Rightarrow>
          (let hn = hover_neighbours h (linkRenderData st)
           in st\<lparr> hoveredNodeId := Some h,
                  hoveredNeighbours := hn,
                  linkRenderData :=
                    map (\<lambda>l. l\<lparr>l_active := incident h (l_simulationData l)\<rparr>) (linkRenderData st),
                  nodeRenderData :=
                    map (\<lambda>n. n\<lparr>n_active := nd_id (n_simulationData n) \<in> set hn\<rparr>)
                        (nodeRenderData st) \<rparr>))"

text \<open>
  What the specification calls the node at the other end of a link incident to the
  hovered node.
\<close>

definition other_end :: "string \<Rightarrow> LinkRenderData list \<Rightarrow> string \<Rightarrow> bool" where
  "other_end h lrd n =
     (\<exists>l \<in> set lrd.
        (nd_id (ld_source (l_simulationData l)) = h \<and> nd_id (ld_target (l_simulationData l)) = n) \<or>
        (nd_id (ld_target (l_simulationData l)) = h \<and> nd_id (ld_source (l_simulationData l)) = n))"

section \<open>Transitions and the frame loop\<close>

text \<open>
  \<open>renderNodes\<close>, \<open>renderLinks\<close> and \<open>renderLabels\<close> each stop the transition
  stored under their key and store a new one, started at the current time \<open>now\<close>.
  The interpolation itself belongs to the tween library; of a transition the model keeps
  its start and its duration, which decide when it is complete.
\<close>

definition completed :: "real \<Rightarrow> TweenNode \<Rightarrow> bool" where
  "completed time tw = (tw_start tw + tw_duration tw \<le> time)"

definition tweens_set :: "string \<Rightarrow> TweenNode \<Rightarrow> graph_instance \<Rightarrow> graph_instance" where
  "tweens_set key tw st = st\<lparr>tweens := AList.update key tw (tweens st)\<rparr>"

definition renderNodes :: "real \<Rightarrow> graph_instance \<Rightarrow> graph_instance" where
  "renderNodes now st = tweens_set ''hover'' \<lparr>tw_start = now, tw_duration = 200\<rparr> st"

definition renderLinks :: "string \<Rightarrow> string \<Rightarrow> real \<Rightarrow> graph_instance \<Rightarrow> graph_instance" where
  "renderLinks gray lightgray now st =
     tweens_set ''link'' \<lparr>tw_start = now, tw_duration = 200\<rparr>
       (st\<lparr>linkRenderData :=
             map (\<lambda>l. l\<lparr>l_color := (if l_active l then gray else lightgray)\<rparr>) (linkRenderData st)\<rparr>)"

definition renderLabels :: "real \<Rightarrow> graph_instance \<Rightarrow> graph_instance" where
  "renderLabels now st = tweens_set ''label'' \<lparr>tw_start = now, tw_duration = 100\<rparr> st"

definition ensureAnimating :: "graph_instance \<Rightarrow> graph_instance" where
  "ensureAnimating st =
     (if \<not> animationRunning st \<and> \<not> stopAnimation st
      then st\<lparr>animationRunning := True, frames := frames st + 1\<rparr>
      else st)"

definition renderPixiFromD3 :: "string \<Rightarrow> string \<Rightarrow> real \<Rightarrow> graph_instance \<Rightarrow> graph_instance" where
  "renderPixiFromD3 gray lightgray now st =
     ensureAnimating (renderLabels now (renderLinks gray lightgray now (renderNodes now st)))"

text \<open>
  One run of the \<open>animate\<close> callback at time \<open>time\<close>, with the simulation's
  \<open>alpha()\<close> and \<open>alphaMin()\<close> as read in that frame. Running takes the callback off
  the requested ones; \<open>tweens.forEach((t) => t.update(time))\<close> changes no key of the
  map; drawing is outside the model.
\<close>

definition animate :: "real \<Rightarrow> real \<Rightarrow> real \<Rightarrow> graph_instance \<Rightarrow> graph_instance" where
  "animate time alpha alphaMin st =
     (let st1 = st\<lparr>frames := frames st - 1\<rparr>
      in if stopAnimation st1 then st1\<lparr>animationRunning := False\<rparr>
         else if alpha < alphaMin \<and> length (tweens st1) = 0 then st1\<lparr>animationRunning := False\<rparr>
         else st1\<lparr>frames := frames st1 + 1\<rparr>)"

text \<open>
  The \<open>animate\<close> callbacks of successive frames, at the times \<open>ts\<close>, while the
  simulation's \<open>alpha()\<close> and \<open>alphaMin()\<close> stay as given and no other handler runs.
\<close>

definition run_frames :: "real list \<Rightarrow> real \<Rightarrow> real \<Rightarrow> graph_instance \<Rightarrow> graph_instance" where
  "run_frames ts alpha alphaMin st = foldl (\<lambda>s time. animate time alpha alphaMin s) st ts"

section \<open>Popover\<close>

definition clearGraphPopover :: "graph_instance \<Rightarrow> graph_instance" where
  "clearGraphPopover st =
     st\<lparr> popoverTimeout := None,
         hideTimeout := False,
         document_popovers :=
           (case activePopover st of
              None \<Rightarrow> document_popovers st
            | Some el \<Rightarrow> removeAll el (document_popovers st)),
         activePopover := None \<rparr>"

definition scheduleHidePopover :: "graph_instance \<Rightarrow> graph_instance" where
  "scheduleHidePopover st = st\<lparr>hideTimeout := True\<rparr>"

text \<open>
  The answer of \<open>fetchCanonical\<close>: \<open>None\<close> when the promise rejects. Of a response
  the function reads the \<open>Content-Type\<close> header and the body; \<open>popover_hints\<close> is
  \<open>None\<close> when reading the body rejects, and else the elements of class
  \<open>popover-hint\<close> of the parsed document. \<open>status\<close> is there, and is never read.
\<close>

record Response =
  status :: nat
  content_type_header :: "string option"
  popover_hints :: "string list option"

definition contentType :: "Response \<Rightarrow> string" where
  "contentType response =
     (case content_type_header response of
        None \<Rightarrow> []
      | Some h \<Rightarrow> takeWhile (\<lambda>c. c \<noteq> CHR '';'') h)"

definition showGraphPopover :: "string \<Rightarrow> Response option \<Rightarrow> graph_instance \<Rightarrow> error + graph_instance" where
  "showGraphPopover pathname fetched st0 =
     (let st = clearGraphPopover st0;
          popoverId = ''graph-popover-'' @ pathname
      in if popoverId \<in> set (document_popovers st) then Inr (st\<lparr>activePopover := Some popoverId\<rparr>)
         else
           (case fetched of
              None \<Rightarrow> Inr st
            | Some response \<Rightarrow>
                if \<not> startsWith (contentType response) ''text/html'' then Inr st
                else
                  (case popover_hints response of
                     None \<Rightarrow> Inl BodyReadFailed
                   | Some elts \<Rightarrow>
                       if length elts = 0 then Inr st
                       else Inr (st\<lparr> document_popovers := document_popovers st @ [popoverId],
                                     activePopover := Some popoverId \<rparr>))))"

section \<open>Pointer and zoom handlers, teardown\<close>

definition pointerover :: "string \<Rightarrow> string \<Rightarrow> string \<Rightarrow> real \<Rightarrow> graph_instance \<Rightarrow> graph_instance" where
  "pointerover nodeId gray lightgray now st =
     (let st1 = updateHoverInfo (Some nodeId) st;
          st2 = st1\<lparr>nodeRenderData :=
                     map (\<lambda>n. if nd_id (n_simulationData n) = nodeId
                              then n\<lparr>oldLabelOpacity := label_alpha n\<rparr> else n)
                         (nodeRenderData st1)\<rparr>;
          st3 = (if \<not> dragging st2 then renderPixiFromD3 gray lightgray now st2 else st2)
      in if altKeyDown st3 then (clearGraphPopover st3)\<lparr>popoverTimeout := Some nodeId\<rparr> else st3)"

definition pointerleave :: "string \<Rightarrow> string \<Rightarrow> string \<Rightarrow> real \<Rightarrow> graph_instance \<Rightarrow> graph_instance" where
  "pointerleave nodeId gray lightgray now st =
     (let st1 = updateHoverInfo None st;
          st2 = st1\<lparr>nodeRenderData :=
                     map (\<lambda>n. if nd_id (n_simulationData n) = nodeId
                              then n\<lparr>label_alpha := oldLabelOpacity n\<rparr> else n)
                         (nodeRenderData st1)\<rparr>;
          st3 = (if \<not> dragging st2 then renderPixiFromD3 gray lightgray now st2 else st2)
      in scheduleHidePopover st3)"

definition scaleOpacity :: "D3Config \<Rightarrow> real \<Rightarrow> real" where
  "scaleOpacity cfg zk = max ((zk * opacityScale cfg - 1) / 3.75) 0"

definition zoom_handler :: "D3Config \<Rightarrow> Transform \<Rightarrow> graph_instance \<Rightarrow> graph_instance" where
  "zoom_handler cfg transform st =
     ensureAnimating
       (st\<lparr> currentTransform := transform,
            stage_transform := transform,
            nodeRenderData :=
              map (\<lambda>n. n\<lparr> label_scale := 1 / (scale cfg * t_k transform),
                           label_alpha := (if n_active n then label_alpha n
                                           else scaleOpacity cfg (t_k transform)) \<rparr>)
                  (nodeRenderData st) \<rparr>)"

text \<open>The scale range given to \<open>scaleExtent\<close>.\<close>

definition scaleExtent :: "real \<times> real" where
  "scaleExtent = (0.25, 4)"

definition in_scaleExtent :: "real \<Rightarrow> bool" where
  "in_scaleExtent zk = (fst scaleExtent \<le> zk \<and> zk \<le> snd scaleExtent)"

text \<open>
  Modelled from the spec: the zoom behaviour that calls the handler is d3's \<open>zoom()\<close>,
  library code that is not under \<open>src/\<close>. The source configures it with
  \<open>scaleExtent([0.25, 4])\<close> and registers the handler only when \<open>enableZoom\<close> is set;
  the specification says that the scale of the zoom transform stays within the
  configured scale range. A zoom event therefore reaches the handler with the requested
  scale brought into the range.
\<close>

definition constrain_scale :: "real \<Rightarrow> real" where
  "constrain_scale zk = max (fst scaleExtent) (min (snd scaleExtent) zk)"

definition zoom_event :: "D3Config \<Rightarrow> Transform \<Rightarrow> graph_instance \<Rightarrow> graph_instance" where
  "zoom_event cfg requested st =
     (if zoom cfg then zoom_handler cfg (requested\<lparr>t_k := constrain_scale (t_k requested)\<rparr>) st
      else st)"

text \<open>
  The closure that \<open>renderGraph\<close> returns. Its last statement, \<open>app.destroy()\<close>,
  belongs to the rendering library, which is not under \<open>src/\<close>: whether the call throws
  is a parameter, \<open>destroy_throws n\<close> for the call on an application that was destroyed
  \<open>n\<close> times before. The statements before it have run when it throws, so the closure
  gives the state together with the error, if any.
\<close>

definition cleanup :: "(nat \<Rightarrow> bool) \<Rightarrow> graph_instance \<Rightarrow> error option \<times> graph_instance" where
  "cleanup destroy_throws st =
     (if destroy_throws (destroy_calls st) then Some DestroyThrew else None,
      (clearGraphPopover (st\<lparr>stopAnimation := True\<rparr>))
        \<lparr>key_listeners := False, destroy_calls := destroy_calls st + 1\<rparr>)"

text \<open>Two calls of the closure, one after the other: the errors of both and the last state.\<close>

definition cleanup_twice ::
  "(nat \<Rightarrow> bool) \<Rightarrow> graph_instance \<Rightarrow> error option \<times> error option \<times> graph_instance" where
  "cleanup_twice destroy_throws st =
     (let (e1, st1) = cleanup destroy_throws st;
          (e2, st2) = cleanup destroy_throws st1
      in (e1, e2, st2))"


section \<open>Definitions used in the proofs\<close>

text \<open>
  The worklist processed a whole layer at a time: \<open>bfs_layers ls d ly nb\<close> adds the
  layer \<open>ly\<close> to \<open>nb\<close> and goes on with the neighbours of \<open>ly\<close>, \<open>d\<close> times.
  \<open>hops_from\<close> is \<open>within_hops\<close> started from a set.
\<close>

fun bfs_layers :: "SimpleLinkData list \<Rightarrow> nat \<Rightarrow> SimpleSlug list \<Rightarrow> SimpleSlug list \<Rightarrow> SimpleSlug list" where
  "bfs_layers ls 0 ly nb = set_add_all nb ly"
| "bfs_layers ls (Suc d) ly nb = bfs_layers ls d (concat (map (neighbours ls) ly)) (set_add_all nb ly)"

fun hops_from :: "SimpleLinkData list \<Rightarrow> nat \<Rightarrow> SimpleSlug set \<Rightarrow> SimpleSlug set" where
  "hops_from ls 0 A = A"
| "hops_from ls (Suc d) A = hops_from ls d A \<union> {y. \<exists>x \<in> hops_from ls d A. linked ls x y}"

definition no_sentinel_links :: "SimpleLinkData list \<Rightarrow> bool" where
  "no_sentinel_links ls = (\<forall>l \<in> set ls. source l \<noteq> SENTINEL \<and> target l \<noteq> SENTINEL)"

definition bfs_measure :: "bfs_state \<Rightarrow> nat \<times> nat" where
  "bfs_measure s = (case s of (d, wl, nb) \<Rightarrow>
     (nat (d + 1), length (takeWhile (\<lambda>x. x \<noteq> SENTINEL) wl)))"

text \<open>
  No identifier in play is the marker string: neither the focal slug, nor a key of the
  index, nor the slug of a tag.
\<close>

definition no_marker_ids ::
  "(FullSlug \<Rightarrow> SimpleSlug) \<Rightarrow> (FullSlug \<times> ContentDetails) list \<Rightarrow> FullSlug \<Rightarrow> D3Config \<Rightarrow> bool" where
  "no_marker_ids simplifySlug fetchData fullSlug cfg =
     (SENTINEL \<noteq> simplifySlug fullSlug \<and>
      SENTINEL \<notin> set (validLinks simplifySlug fetchData) \<and>
      SENTINEL \<notin> set (all_tags simplifySlug fetchData cfg))"

definition link_of :: "(SimpleSlug \<times> ContentDetails) list \<Rightarrow> SimpleLinkData \<Rightarrow> LinkData" where
  "link_of data l = \<lparr>ld_source = mk_node data (source l), ld_target = mk_node data (target l)\<rparr>"

section \<open>Concrete inputs\<close>

text \<open>
  The index of the specification's end-to-end scenario, \<open>{A: links=[B], B: links=[A,C],
  C: links=[]}\<close>, with source paths and one tag added; slugs are already simplified, so
  \<open>simplifySlug\<close> is the identity on them.
\<close>

definition scenario_index :: "(FullSlug \<times> ContentDetails) list" where
  "scenario_index =
     [(''A'', \<lparr>title = ''Page A'', links = Some [''B''], tags = [''ml''], filePath = Some ''Model/A.md''\<rparr>),
      (''B'', \<lparr>title = ''Page B'', links = Some [''A'', ''C''], tags = [], filePath = Some ''Concept/Model/B.md''\<rparr>),
      (''C'', \<lparr>title = ''Page C'', links = Some [], tags = [], filePath = None\<rparr>)]"

definition scenario_cfg :: "int \<Rightarrow> D3Config" where
  "scenario_cfg d =
     \<lparr>drag = True, zoom = True, depth = d, scale = 1.1, opacityScale = 1, removeTags = [],
      showTags = False, focusOnHover = False\<rparr>"

definition tags_cfg :: D3Config where
  "tags_cfg = (scenario_cfg 1)\<lparr>showTags := True\<rparr>"

definition wide_cfg :: D3Config where
  "wide_cfg = (scenario_cfg 1)\<lparr>opacityScale := 2\<rparr>"

text \<open>A depth that is a double and that \<open>depth--\<close> leaves as it is: \<open>2^53 + 4\<close>.\<close>

definition stuck_depth :: int where
  "stuck_depth = 9007199254740996"

text \<open>
An index with a page whose slug is the marker string of the worklist.
\<close>

definition marker_index :: "(FullSlug \<times> ContentDetails) list" where
  "marker_index =
     [(''A'', \<lparr>title = ''Page A'', links = Some [''__SENTINEL''], tags = [], filePath = None\<rparr>),
      (''__SENTINEL'', \<lparr>title = ''Marker'', links = Some [], tags = [], filePath = None\<rparr>)]"

definition scenario_graph :: GraphData where
  "scenario_graph =
     (case graphData (\<lambda>s. s) scenario_index ''A'' (scenario_cfg 1) of
        Inl e \<Rightarrow> \<lparr>gd_nodes = [], gd_links = []\<rparr>
      | Inr g \<Rightarrow> g)"

definition tagged_graph :: GraphData where
  "tagged_graph =
     (case graphData (\<lambda>s. s) scenario_index ''A'' tags_cfg of
        Inl e \<Rightarrow> \<lparr>gd_nodes = [], gd_links = []\<rparr>
      | Inr g \<Rightarrow> g)"

definition hover_instance :: graph_instance where
  "hover_instance = mounted (scenario_cfg 1) (\<lambda>n. ''gray'') ''lightgray'' scenario_graph"

definition not_found_response :: Response where
  "not_found_response =
     \<lparr>status = 404, content_type_header = Some ''text/html; charset=utf-8'',
      popover_hints = Some [''<article class=popover-hint>404</article>'']\<rparr>"

definition zoom_in :: Transform where
  "zoom_in = \<lparr>t_k = 2, t_x = 0, t_y = 0\<rparr>"

definition zoom_max :: Transform where
  "zoom_max = \<lparr>t_k = 4, t_x = 0, t_y = 0\<rparr>"

definition zoom_far :: Transform where
  "zoom_far = \<lparr>t_k = 10, t_x = 5, t_y = 7\<rparr>"

text \<open>
  The scenario graph at depth 2 (nodes \<open>A\<close>, \<open>B\<close>, \<open>C\<close>), mounted, zoomed to the
  largest scale and then hovered at \<open>A\<close>: \<open>A\<close> and \<open>B\<close> are active, \<open>C\<close> is not.
\<close>

definition two_hop_graph :: GraphData where
  "two_hop_graph =
     (case graphData (\<lambda>s. s) scenario_index ''A'' (scenario_cfg 2) of
        Inl e \<Rightarrow> \<lparr>gd_nodes = [], gd_links = []\<rparr>
      | Inr g \<Rightarrow> g)"

definition zoomed_hover_instance :: graph_instance where
  "zoomed_hover_instance =
     updateHoverInfo (Some ''A'')
       (zoom_event (scenario_cfg 2) zoom_max
          (mounted (scenario_cfg 2) (\<lambda>n. ''gray'') ''lightgray'' two_hop_graph))"

text \<open>
  The mounted scenario graph after a first frame with a cooled simulation, which stops
  the loop, and a hover on \<open>A\<close> at time 500.
\<close>

definition hovered_instance :: graph_instance where
  "hovered_instance =
     pointerover ''A'' ''gray'' ''lightgray'' 500 (animate 16 0 (1 / 1000) hover_instance)"

text \<open>A library whose \<open>destroy\<close> throws on an application that is already destroyed.\<close>

definition destroyed_app_throws :: "nat \<Rightarrow> bool" where
  "destroyed_app_throws n = (0 < n)"

section \<open>The worklist loop\<close>

lemma js_decrement_exact:
  assumes "0 \<le> d" and "d \<le> exact_limit"
  shows "js_decrement d = d - 1"
proof -
  have "\<bar>d - 1\<bar> < 9007199254740992" using assms by (simp add: exact_limit_def)
  then have "ulp_of \<bar>d - 1\<bar> = 1" by (subst ulp_of.simps) simp
  then show ?thesis by (simp add: js_decrement_def round_double_def round_to_even_def)
qed

lemma ulp_of_stuck: "ulp_of 9007199254740995 = 2"
  by (subst ulp_of.simps, simp, subst ulp_of.simps, simp)

lemma js_decrement_stuck: "js_decrement stuck_depth = stuck_depth"
  by (simp add: stuck_depth_def js_decrement_def round_double_def round_to_even_def ulp_of_stuck)

lemma bfs_loop_sentinel:
  "d \<ge> 0 \<Longrightarrow>
   bfs_loop ls (d, SENTINEL # rest, nb) = bfs_loop ls (js_decrement d, rest @ [SENTINEL], nb)"
  by (subst bfs_loop.simps) (simp add: bfs_cond_def bfs_step_def)

lemma bfs_loop_node:
  "d \<ge> 0 \<Longrightarrow> cur \<noteq> SENTINEL \<Longrightarrow>
   bfs_loop ls (d, cur # rest, nb) = bfs_loop ls (d, rest @ neighbours ls cur, set_add nb cur)"
  by (subst bfs_loop.simps) (simp add: bfs_cond_def bfs_step_def)

lemma bfs_loop_exit: "d < 0 \<Longrightarrow> bfs_loop ls (d, wl, nb) = Some (d, wl, nb)"
  by (subst bfs_loop.simps) (simp add: bfs_cond_def)

lemma bfs_loop_layer:
  "d \<ge> 0 \<Longrightarrow> SENTINEL \<notin> set pre \<Longrightarrow>
   bfs_loop ls (d, pre @ SENTINEL # post, nb) =
   bfs_loop ls (d, SENTINEL # post @ concat (map (neighbours ls) pre), set_add_all nb pre)"
proof (induction pre arbitrary: post nb)
  case Nil
  then show ?case by (simp add: set_add_all_def)
next
  case (Cons x pre)
  from Cons.prems have x: "x \<noteq> SENTINEL" and pre: "SENTINEL \<notin> set pre" by auto
  have "bfs_loop ls (d, (x # pre) @ SENTINEL # post, nb) =
        bfs_loop ls (d, pre @ SENTINEL # (post @ neighbours ls x), set_add nb x)"
    using bfs_loop_node[OF Cons.prems(1) x] by simp
  also have "\<dots> = bfs_loop ls (d, SENTINEL # (post @ neighbours ls x) @ concat (map (neighbours ls) pre),
                               set_add_all (set_add nb x) pre)"
    by (rule Cons.IH[OF Cons.prems(1) pre])
  finally show ?case by (simp add: set_add_all_def)
qed

lemma neighbours_no_sentinel:
  "no_sentinel_links ls \<Longrightarrow> SENTINEL \<notin> set (neighbours ls x)"
  by (auto simp: no_sentinel_links_def neighbours_def)

lemma bfs_loop_layers:
  "no_sentinel_links ls \<Longrightarrow> SENTINEL \<notin> set ly \<Longrightarrow> int d \<le> exact_limit \<Longrightarrow>
   map_option (\<lambda>s. snd (snd s)) (bfs_loop ls (int d, ly @ [SENTINEL], nb)) = Some (bfs_layers ls d ly nb)"
proof (induction d arbitrary: ly nb)
  case 0
  have z: "js_decrement 0 = - 1" using js_decrement_exact[of 0] by (simp add: exact_limit_def)
  from 0 show ?case
    by (simp add: bfs_loop_layer bfs_loop_sentinel z bfs_loop_exit)
next
  case (Suc d)
  have ns: "SENTINEL \<notin> set (concat (map (neighbours ls) ly))"
    using Suc.prems(1) by (auto dest: neighbours_no_sentinel)
  have dec: "js_decrement (int (Suc d)) = int d"
    using js_decrement_exact[of "int (Suc d)"] Suc.prems(3) by simp
  have le: "int d \<le> exact_limit" using Suc.prems(3) by simp
  have s1: "bfs_loop ls (int (Suc d), ly @ [SENTINEL], nb) =
        bfs_loop ls (int (Suc d), SENTINEL # concat (map (neighbours ls) ly), set_add_all nb ly)"
    using bfs_loop_layer[of "int (Suc d)" ly ls "[]" nb] Suc.prems(2) by simp
  have s2: "bfs_loop ls (int (Suc d), SENTINEL # concat (map (neighbours ls) ly), set_add_all nb ly) =
        bfs_loop ls (js_decrement (int (Suc d)), concat (map (neighbours ls) ly) @ [SENTINEL], set_add_all nb ly)"
    by (rule bfs_loop_sentinel) simp
  have "bfs_loop ls (int (Suc d), ly @ [SENTINEL], nb) =
        bfs_loop ls (int d, concat (map (neighbours ls) ly) @ [SENTINEL], set_add_all nb ly)"
    by (simp only: s1 s2 dec)
  then show ?case using Suc.IH[OF Suc.prems(1) ns le] by simp
qed

lemma set_set_add: "set (set_add s x) = insert x (set s)"
  by (auto simp: set_add_def)

lemma set_set_add_all: "set (set_add_all s xs) = set s \<union> set xs"
  unfolding set_add_all_def by (induction xs arbitrary: s) (auto simp: set_set_add)

lemma within_hops_from: "within_hops ls d f = hops_from ls d {f}"
  by (induction d) auto

lemma hops_from_incl: "A \<subseteq> hops_from ls d A"
  by (induction d) auto

lemma hops_from_shift:
  "hops_from ls (Suc d) A = A \<union> hops_from ls d {y. \<exists>x \<in> A. linked ls x y}"
proof (induction d)
  case 0
  show ?case by simp
next
  case (Suc d)
  let ?N = "\<lambda>B. {y. \<exists>x \<in> B. linked ls x y}"
  have "hops_from ls (Suc (Suc d)) A = hops_from ls (Suc d) A \<union> ?N (hops_from ls (Suc d) A)"
    by simp
  also have "\<dots> = (A \<union> hops_from ls d (?N A)) \<union> ?N (A \<union> hops_from ls d (?N A))"
    by (simp only: Suc.IH)
  also have "\<dots> = A \<union> (?N A \<union> hops_from ls (Suc d) (?N A))"
    by auto
  also have "\<dots> = A \<union> hops_from ls (Suc d) (?N A)"
    using hops_from_incl[of "?N A" ls "Suc d"] by blast
  finally show ?case .
qed

lemma set_neighbours: "set (neighbours ls x) = {y. linked ls x y}"
  by (auto simp: neighbours_def linked_def)

lemma set_concat_neighbours:
  "set (concat (map (neighbours ls) ly)) = {y. \<exists>x \<in> set ly. linked ls x y}"
  by (auto simp: set_neighbours)

lemma set_bfs_layers: "set (bfs_layers ls d ly nb) = set nb \<union> hops_from ls d (set ly)"
proof (induction d arbitrary: ly nb)
  case 0
  show ?case by (simp add: set_set_add_all)
next
  case (Suc d)
  have "set (bfs_layers ls (Suc d) ly nb) =
        set nb \<union> set ly \<union> hops_from ls d {y. \<exists>x \<in> set ly. linked ls x y}"
    by (simp only: bfs_layers.simps Suc.IH set_set_add_all set_concat_neighbours)
  also have "\<dots> = set nb \<union> hops_from ls (Suc d) (set ly)"
    by (simp only: hops_from_shift Un_assoc)
  finally show ?case .
qed

lemma bfs_step_decreases:
  assumes "bfs_cond s" and "SENTINEL \<in> set (fst (snd s))" and "fst s \<le> exact_limit"
  shows "(bfs_measure (bfs_step ls s), bfs_measure s) \<in> less_than <*lex*> less_than
         \<and> SENTINEL \<in> set (fst (snd (bfs_step ls s)))
         \<and> fst (bfs_step ls s) \<le> exact_limit"
proof -
  obtain d wl nb where s: "s = (d, wl, nb)" by (cases s)
  with assms obtain cur rest where wl: "wl = cur # rest" and d: "d \<ge> 0"
    by (cases wl) (auto simp: bfs_cond_def)
  from assms(3) s have le: "d \<le> exact_limit" by simp
  show ?thesis
  proof (cases "cur = SENTINEL")
    case True
    then show ?thesis using s wl d le
      by (simp add: bfs_step_def bfs_measure_def js_decrement_exact)
  next
    case False
    with assms(2) s wl have "SENTINEL \<in> set rest" by auto
    then have "takeWhile (\<lambda>x. x \<noteq> SENTINEL) (rest @ neighbours ls cur) = takeWhile (\<lambda>x. x \<noteq> SENTINEL) rest"
      by (simp add: takeWhile_append1)
    then show ?thesis using s wl d le False \<open>SENTINEL \<in> set rest\<close>
      by (simp add: bfs_step_def bfs_measure_def)
  qed
qed

lemma bfs_loop_returns:
  "SENTINEL \<in> set (fst (snd s)) \<Longrightarrow> fst s \<le> exact_limit \<Longrightarrow>
   \<exists>n. bfs_loop ls s = Some ((bfs_step ls ^^ n) s) \<and> \<not> bfs_cond ((bfs_step ls ^^ n) s)"
proof (induction s rule: wf_induct_rule[OF wf_inv_image[OF wf_lex_prod[OF wf_less_than wf_less_than], where f = bfs_measure]])
  case (1 s)
  show ?case
  proof (cases "bfs_cond s")
    case False
    then have "bfs_loop ls s = Some ((bfs_step ls ^^ 0) s) \<and> \<not> bfs_cond ((bfs_step ls ^^ 0) s)"
      by (subst bfs_loop.simps) simp
    then show ?thesis by blast
  next
    case True
    from bfs_step_decreases[OF True "1.prems", of ls]
    have dec: "(bfs_step ls s, s) \<in> inv_image (less_than <*lex*> less_than) bfs_measure"
      and inv: "SENTINEL \<in> set (fst (snd (bfs_step ls s)))"
      and le: "fst (bfs_step ls s) \<le> exact_limit"
      by (auto simp: inv_image_def)
    from "1.IH"[OF dec inv le] obtain n where
      n: "bfs_loop ls (bfs_step ls s) = Some ((bfs_step ls ^^ n) (bfs_step ls s))"
         "\<not> bfs_cond ((bfs_step ls ^^ n) (bfs_step ls s))"
      by blast
    have "bfs_loop ls s = bfs_loop ls (bfs_step ls s)"
      using True by (subst bfs_loop.simps) simp
    with n have "bfs_loop ls s = Some ((bfs_step ls ^^ Suc n) s) \<and> \<not> bfs_cond ((bfs_step ls ^^ Suc n) s)"
      by (simp add: funpow_swap1)
    then show ?thesis by blast
  qed
qed

lemma bfs_step_stuck:
  assumes "js_decrement d = d" and "0 \<le> d" and "fst s = d" and "SENTINEL \<in> set (fst (snd s))"
  shows "bfs_cond s \<and> fst (bfs_step ls s) = d \<and> SENTINEL \<in> set (fst (snd (bfs_step ls s)))"
proof -
  obtain d' wl nb where s: "s = (d', wl, nb)" by (cases s)
  with assms(3) have d': "d' = d" by simp
  from assms(4) s obtain cur rest where wl: "wl = cur # rest" by (cases wl) auto
  show ?thesis
  proof (cases "cur = SENTINEL")
    case True
    then show ?thesis using s d' wl assms(1,2) by (simp add: bfs_cond_def bfs_step_def)
  next
    case False
    with assms(4) s wl have "SENTINEL \<in> set rest" by auto
    then show ?thesis using s d' wl assms(2) False by (simp add: bfs_cond_def bfs_step_def)
  qed
qed

lemma bfs_loop_stuck:
  assumes "js_decrement d = d" and "0 \<le> d" and "bfs_loop ls s = Some t"
  shows "\<not> (fst s = d \<and> SENTINEL \<in> set (fst (snd s)))"
proof (rule bfs_loop.raw_induct[where P = "\<lambda>ls s t. \<not> (fst s = d \<and> SENTINEL \<in> set (fst (snd s)))"
      and ls = ls and s = s and y = t])
  show "bfs_loop ls s = Some t" by (rule assms(3))
next
  fix f :: "SimpleLinkData list \<Rightarrow> bfs_state \<Rightarrow> bfs_state option" and ls' s' t'
  assume IH: "\<And>a b y. f a b = Some y \<Longrightarrow> \<not> (fst b = d \<and> SENTINEL \<in> set (fst (snd b)))"
    and eq: "(if bfs_cond s' then f ls' (bfs_step ls' s') else Some s') = Some t'"
  show "\<not> (fst s' = d \<and> SENTINEL \<in> set (fst (snd s')))"
  proof
    assume inv: "fst s' = d \<and> SENTINEL \<in> set (fst (snd s'))"
    from bfs_step_stuck[OF assms(1,2), of s' ls'] inv
    have c: "bfs_cond s'"
      and i: "fst (bfs_step ls' s') = d \<and> SENTINEL \<in> set (fst (snd (bfs_step ls' s')))"
      by simp_all
    from eq c have "f ls' (bfs_step ls' s') = Some t'" by simp
    from IH[OF this] i show False by simp
  qed
qed

lemma bfs_loop_diverges:
  assumes "js_decrement d = d" and "0 \<le> d" and "SENTINEL \<in> set wl"
  shows "bfs_loop ls (d, wl, nb) = None"
proof (cases "bfs_loop ls (d, wl, nb)")
  case None
  then show ?thesis .
next
  case (Some t)
  from bfs_loop_stuck[OF assms(1,2) Some] assms(3) show ?thesis by simp
qed

lemma bfs_step_sentinel_count:
  assumes "no_sentinel_links ls" and "count_list (wl_of s) SENTINEL = 1"
  shows "count_list (wl_of (bfs_step ls s)) SENTINEL = 1"
proof -
  obtain d wl nb where s: "s = (d, wl, nb)" by (cases s)
  have ns: "count_list (neighbours ls x) SENTINEL = 0" for x
    using neighbours_no_sentinel[OF assms(1)] by (simp add: count_list_0_iff)
  show ?thesis
  proof (cases wl)
    case Nil
    with assms(2) s show ?thesis by (simp add: wl_of_def)
  next
    case (Cons cur rest)
    with assms(2) s ns show ?thesis
      by (auto simp: bfs_step_def wl_of_def split: if_splits)
  qed
qed

lemma bfs_step_sentinel_mem:
  assumes "SENTINEL \<in> set (wl_of s)"
  shows "SENTINEL \<in> set (wl_of (bfs_step ls s))"
proof -
  obtain d wl nb where s: "s = (d, wl, nb)" by (cases s)
  show ?thesis using assms s
    by (cases wl) (auto simp: bfs_step_def wl_of_def)
qed

lemma bfs_iter_sentinel_mem:
  "SENTINEL \<in> set (wl_of ((bfs_step ls ^^ k) (bfs_init d slug)))"
  by (induction k) (auto simp: bfs_step_sentinel_mem, simp add: bfs_init_def wl_of_def)

lemma bfs_iter_sentinel_count:
  assumes "no_sentinel_links ls" and "slug \<noteq> SENTINEL"
  shows "count_list (wl_of ((bfs_step ls ^^ k) (bfs_init d slug))) SENTINEL = 1"
proof (induction k)
  case 0
  show ?case using assms(2) by (simp add: bfs_init_def wl_of_def)
next
  case (Suc k)
  then show ?case using bfs_step_sentinel_count[OF assms(1)] by simp
qed

lemma bfs_step_pop_sentinel:
  assumes "bfs_cond s" and "hd (wl_of s) = SENTINEL" and "depth_of s \<le> exact_limit"
  shows "depth_of (bfs_step ls s) = depth_of s - 1"
proof -
  obtain d wl nb where s: "s = (d, wl, nb)" by (cases s)
  show ?thesis using assms s
    by (cases wl) (auto simp: bfs_step_def bfs_cond_def wl_of_def depth_of_def js_decrement_exact)
qed

text \<open>
  Claim C10, as amended. The worklist loop terminates for every link list, every focal
  slug and every depth up to \<open>2^53\<close>, cyclic graphs included: started from
  \<open>[slug, "__SENTINEL"]\<close> it stops after finitely many iterations and returns its state.
  A marker is in the worklist at all times, and every pop of a marker at a depth up to
  \<open>2^53\<close> strictly decreases the remaining depth. There is exactly one marker in the
  worklist at all times when neither the focal slug nor an end of a link is the marker
  string itself.
\<close>

theorem worklist_loop_terminates:
  "(d \<le> exact_limit \<longrightarrow>
      (\<exists>n. bfs_loop ls (bfs_init d slug) = Some ((bfs_step ls ^^ n) (bfs_init d slug)) \<and>
           \<not> bfs_cond ((bfs_step ls ^^ n) (bfs_init d slug)))) \<and>
   (\<forall>k. SENTINEL \<in> set (wl_of ((bfs_step ls ^^ k) (bfs_init d slug)))) \<and>
   (no_sentinel_links ls \<and> slug \<noteq> SENTINEL \<longrightarrow>
      (\<forall>k. count_list (wl_of ((bfs_step ls ^^ k) (bfs_init d slug))) SENTINEL = 1)) \<and>
   (\<forall>s. bfs_cond s \<and> hd (wl_of s) = SENTINEL \<and> depth_of s \<le> exact_limit \<longrightarrow>
        depth_of (bfs_step ls s) < depth_of s)"
proof -
  have m: "SENTINEL \<in> set (fst (snd (bfs_init d slug)))" by (simp add: bfs_init_def)
  have r: "\<exists>n. bfs_loop ls (bfs_init d slug) = Some ((bfs_step ls ^^ n) (bfs_init d slug)) \<and>
           \<not> bfs_cond ((bfs_step ls ^^ n) (bfs_init d slug))" if "d \<le> exact_limit"
    using bfs_loop_returns[OF m, of ls] that by (simp add: bfs_init_def)
  show ?thesis
    using r by (auto simp: bfs_iter_sentinel_mem bfs_iter_sentinel_count bfs_step_pop_sentinel)
qed

text \<open>
  An instance: the scenario index, whose links \<open>A \<rightarrow> B\<close> and \<open>B \<rightarrow> A\<close> form a
  cycle, with focal slug \<open>A\<close> and depth 1.
\<close>

theorem worklist_loop_terminates_witness:
  "1 \<le> exact_limit \<and>
   (no_sentinel_links (all_links (\<lambda>s. s) scenario_index (scenario_cfg 1)) \<and> ''A'' \<noteq> SENTINEL) \<and>
   (\<exists>n. bfs_loop (all_links (\<lambda>s. s) scenario_index (scenario_cfg 1)) (bfs_init 1 ''A'') =
           Some ((bfs_step (all_links (\<lambda>s. s) scenario_index (scenario_cfg 1)) ^^ n) (bfs_init 1 ''A'')) \<and>
         \<not> bfs_cond ((bfs_step (all_links (\<lambda>s. s) scenario_index (scenario_cfg 1)) ^^ n) (bfs_init 1 ''A''))) \<and>
   (\<forall>k. count_list (wl_of ((bfs_step (all_links (\<lambda>s. s) scenario_index (scenario_cfg 1)) ^^ k) (bfs_init 1 ''A'')))
          SENTINEL = 1) \<and>
   (bfs_cond (1, [SENTINEL, ''B''], [''A'']) \<and> hd (wl_of (1, [SENTINEL, ''B''], [''A''])) = SENTINEL \<and>
    depth_of (1, [SENTINEL, ''B''], [''A'']) \<le> exact_limit) \<and>
   depth_of (bfs_step (all_links (\<lambda>s. s) scenario_index (scenario_cfg 1)) (1, [SENTINEL, ''B''], [''A''])) <
     depth_of (1, [SENTINEL, ''B''], [''A''])"
proof -
  let ?ls = "all_links (\<lambda>s. s) scenario_index (scenario_cfg 1)"
  have l: "1 \<le> exact_limit" by (simp add: exact_limit_def)
  have a: "no_sentinel_links ?ls" by code_simp
  have b: "''A'' \<noteq> SENTINEL" by (simp add: SENTINEL_def)
  have c: "bfs_cond (1, [SENTINEL, ''B''], [''A'']) \<and> hd (wl_of (1, [SENTINEL, ''B''], [''A''])) = SENTINEL \<and>
    depth_of (1, [SENTINEL, ''B''], [''A'']) \<le> exact_limit"
    by (simp add: bfs_cond_def wl_of_def depth_of_def exact_limit_def)
  note w = worklist_loop_terminates[of 1 ?ls "''A''"]
  note w1 = w[THEN conjunct1, rule_format, OF l]
  note w3 = w[THEN conjunct2, THEN conjunct2, THEN conjunct1, rule_format, OF conjI[OF a b]]
  note w4 = w[THEN conjunct2, THEN conjunct2, THEN conjunct2, rule_format, OF c]
  have w3': "\<forall>k. count_list (wl_of ((bfs_step ?ls ^^ k) (bfs_init 1 ''A''))) SENTINEL = 1"
    using w3 by (intro allI)
  show ?thesis
    by (intro conjI) (fact l a b w1 w3' c[THEN conjunct1] c[THEN conjunct2, THEN conjunct1]
        c[THEN conjunct2, THEN conjunct2] w4)+
qed

text \<open>
  The claim as stated fails twice. With a page whose slug is \<open>__SENTINEL\<close> linked from
  the focal page, the worklist holds two markers after the first iteration. And at the
  depth \<open>2^53 + 4\<close>, which is a double, a pop of the marker leaves the depth as it is,
  and the loop does not return.
\<close>

theorem worklist_fails_beyond_limits:
  "count_list (wl_of (bfs_step (all_links (\<lambda>s. s) marker_index (scenario_cfg 1)) (bfs_init 1 ''A'')))
     SENTINEL = 2 \<and>
   round_double stuck_depth = stuck_depth \<and>
   depth_of (bfs_step (all_links (\<lambda>s. s) scenario_index (scenario_cfg 1)) (stuck_depth, [SENTINEL], [''A'']))
     = stuck_depth \<and>
   bfs_loop (all_links (\<lambda>s. s) scenario_index (scenario_cfg 1)) (bfs_init stuck_depth ''A'') = None"
proof -
  let ?ls = "all_links (\<lambda>s. s) scenario_index (scenario_cfg 1)"
  have a: "count_list (wl_of (bfs_step (all_links (\<lambda>s. s) marker_index (scenario_cfg 1)) (bfs_init 1 ''A'')))
     SENTINEL = 2"
    by code_simp
  have b: "round_double stuck_depth = stuck_depth" by code_simp
  have c: "depth_of (bfs_step ?ls (stuck_depth, [SENTINEL], [''A''])) = stuck_depth"
    by (simp add: bfs_step_def depth_of_def js_decrement_stuck)
  have p: "0 \<le> stuck_depth" by (simp add: stuck_depth_def)
  have d: "bfs_loop ?ls (bfs_init stuck_depth ''A'') = None"
    unfolding bfs_init_def by (rule bfs_loop_diverges[OF js_decrement_stuck p]) simp
  show ?thesis by (intro conjI) (fact a b c d)+
qed

section \<open>The neighbourhood\<close>

lemma link_step_endpoints:
  assumes "link_step simplifySlug cfg V (ls0, tgs0) (k, details) = (ls, tgs)"
    and "\<forall>l \<in> set ls0. source l \<in> S \<and> target l \<in> set V \<union> set tgs0"
    and "k \<in> S"
  shows "(\<forall>l \<in> set ls. source l \<in> S \<and> target l \<in> set V \<union> set tgs) \<and> set tgs0 \<subseteq> set tgs
         \<and> (\<not> showTags cfg \<longrightarrow> tgs = tgs0)"
  using assms by (auto simp: link_step_def Let_def split: if_splits)

lemma foldl_link_step_endpoints:
  assumes "foldl (link_step simplifySlug cfg V) (ls0, tgs0) xs = (ls, tgs)"
    and "\<forall>l \<in> set ls0. source l \<in> S \<and> target l \<in> set V \<union> set tgs0"
    and "fst ` set xs \<subseteq> S"
  shows "(\<forall>l \<in> set ls. source l \<in> S \<and> target l \<in> set V \<union> set tgs) \<and> (\<not> showTags cfg \<longrightarrow> tgs = tgs0)"
  using assms
proof (induction xs arbitrary: ls0 tgs0)
  case Nil
  then show ?case by simp
next
  case (Cons x xs)
  obtain k details where x: "x = (k, details)" by (cases x)
  obtain ls1 tgs1 where st: "link_step simplifySlug cfg V (ls0, tgs0) (k, details) = (ls1, tgs1)"
    by (cases "link_step simplifySlug cfg V (ls0, tgs0) (k, details)")
  from Cons.prems(3) x have kS: "k \<in> S" by simp
  note h = link_step_endpoints[OF st Cons.prems(2) kS]
  have "foldl (link_step simplifySlug cfg V) (ls1, tgs1) xs = (ls, tgs)"
    using Cons.prems(1) x st by simp
  from Cons.IH[OF this] h Cons.prems(3) show ?case by auto
qed

lemma build_links_endpoints:
  assumes "build_links simplifySlug cfg data = (ls, tgs)" and "l \<in> set ls"
  shows "source l \<in> fst ` set data" and "target l \<in> fst ` set data \<union> set tgs"
  using foldl_link_step_endpoints[of simplifySlug cfg "map fst data" "[]" "[]" data ls tgs "fst ` set data"]
    assms by (auto simp: build_links_def)

lemma all_links_endpoints:
  assumes "l \<in> set (all_links simplifySlug fetchData cfg)"
  shows "source l \<in> set (validLinks simplifySlug fetchData)"
    and "target l \<in> set (validLinks simplifySlug fetchData) \<union> set (all_tags simplifySlug fetchData cfg)"
proof -
  obtain ls tgs where b: "build_links simplifySlug cfg (index_data simplifySlug fetchData) = (ls, tgs)"
    by (cases "build_links simplifySlug cfg (index_data simplifySlug fetchData)")
  with assms have "l \<in> set ls" by (simp add: all_links_def)
  from build_links_endpoints[OF b this]
  show "source l \<in> set (validLinks simplifySlug fetchData)"
    and "target l \<in> set (validLinks simplifySlug fetchData) \<union> set (all_tags simplifySlug fetchData cfg)"
    using b by (simp_all add: validLinks_def all_tags_def)
qed

lemma neighbourhood_unfold:
  "neighbourhood simplifySlug fetchData fullSlug cfg =
   neighbourhood_of (all_links simplifySlug fetchData cfg) (all_tags simplifySlug fetchData cfg)
     (validLinks simplifySlug fetchData) cfg (simplifySlug fullSlug)"
  by (simp add: neighbourhood_def all_links_def all_tags_def validLinks_def Let_def split: prod.split)

lemma no_marker_links:
  assumes "no_marker_ids simplifySlug fetchData fullSlug cfg"
  shows "no_sentinel_links (all_links simplifySlug fetchData cfg)"
  unfolding no_sentinel_links_def
proof
  fix l assume l: "l \<in> set (all_links simplifySlug fetchData cfg)"
  from all_links_endpoints[OF l] assms
  show "source l \<noteq> SENTINEL \<and> target l \<noteq> SENTINEL"
    by (auto simp: no_marker_ids_def)
qed

lemma neighbourhood_of_nonneg:
  assumes "0 \<le> depth cfg" and "depth cfg \<le> exact_limit"
    and "no_sentinel_links ls" and "slug \<noteq> SENTINEL"
  shows "neighbourhood_of ls tgs V cfg slug = Some (bfs_layers ls (nat (depth cfg)) [slug] [])"
proof -
  have "map_option (\<lambda>s. snd (snd s)) (bfs_loop ls (int (nat (depth cfg)), [slug] @ [SENTINEL], [])) =
        Some (bfs_layers ls (nat (depth cfg)) [slug] [])"
    by (rule bfs_loop_layers) (use assms in auto)
  then show ?thesis using assms(1) by (simp add: neighbourhood_of_def bfs_init_def)
qed

lemma neighbourhood_returns:
  assumes "depth cfg \<le> exact_limit"
  shows "\<exists>nb. neighbourhood simplifySlug fetchData fullSlug cfg = Some nb"
proof (cases "depth cfg < 0")
  case True
  then show ?thesis by (simp add: neighbourhood_unfold neighbourhood_of_def)
next
  case False
  have m: "SENTINEL \<in> set (fst (snd (bfs_init (depth cfg) (simplifySlug fullSlug))))"
    by (simp add: bfs_init_def)
  have l: "fst (bfs_init (depth cfg) (simplifySlug fullSlug)) \<le> exact_limit"
    using assms by (simp add: bfs_init_def)
  from bfs_loop_returns[OF m l, of "all_links simplifySlug fetchData cfg"]
  obtain t where "bfs_loop (all_links simplifySlug fetchData cfg)
                    (bfs_init (depth cfg) (simplifySlug fullSlug)) = Some t"
    by blast
  with False show ?thesis by (simp add: neighbourhood_unfold neighbourhood_of_def)
qed

lemma neighbourhood_stuck:
  "neighbourhood simplifySlug fetchData fullSlug (cfg\<lparr>depth := stuck_depth\<rparr>) = None"
proof -
  have p: "0 \<le> stuck_depth" by (simp add: stuck_depth_def)
  have "bfs_loop (all_links simplifySlug fetchData (cfg\<lparr>depth := stuck_depth\<rparr>))
          (stuck_depth, [simplifySlug fullSlug, SENTINEL], []) = None"
    by (rule bfs_loop_diverges[OF js_decrement_stuck p]) simp
  then show ?thesis using p by (simp add: neighbourhood_unfold neighbourhood_of_def bfs_init_def)
qed

lemma neighbourhood_depth0:
  assumes "depth cfg = 0" and "slug \<noteq> SENTINEL"
  shows "neighbourhood_of ls tgs V cfg slug = Some [slug]"
proof -
  have z: "js_decrement 0 = - 1" using js_decrement_exact[of 0] by (simp add: exact_limit_def)
  have "bfs_loop ls (bfs_init 0 slug) = bfs_loop ls (0, SENTINEL # neighbours ls slug, [slug])"
    using bfs_loop_node[of 0 slug ls "[SENTINEL]" "[]"] assms(2)
    by (simp add: bfs_init_def set_add_def)
  also have "\<dots> = Some (-1, neighbours ls slug @ [SENTINEL], [slug])"
    using bfs_loop_sentinel[of 0 ls "neighbours ls slug" "[slug]"] by (simp add: z bfs_loop_exit)
  finally show ?thesis using assms(1) by (simp add: neighbourhood_of_def)
qed

text \<open>
  Claim C1, as amended. For every content index, focal slug and configuration: when
  \<open>depth < 0\<close> the neighbourhood is the whole index, plus all tag slugs when
  \<open>showTags\<close> is set. When \<open>depth = 0\<close> and the focal slug is not the marker string
  \<open>__SENTINEL\<close>, it is exactly the focal slug. When \<open>depth = d\<close> with
  \<open>0 \<le> d \<le> 2^53\<close> and no slug in play (focal slug, index key, tag slug) is the marker
  string, it is the set of slugs within \<open>d\<close> undirected hops of the focal slug in the
  list of content and tag links. In each of these cases the computation returns.
\<close>

theorem neighbourhood_correct:
  "(depth cfg < 0 \<longrightarrow>
      map_option set (neighbourhood simplifySlug fetchData fullSlug cfg) =
        Some (set (validLinks simplifySlug fetchData) \<union>
              (if showTags cfg then set (all_tags simplifySlug fetchData cfg) else {}))) \<and>
   (depth cfg = 0 \<and> simplifySlug fullSlug \<noteq> SENTINEL \<longrightarrow>
      map_option set (neighbourhood simplifySlug fetchData fullSlug cfg) = Some {simplifySlug fullSlug}) \<and>
   (0 \<le> depth cfg \<and> depth cfg \<le> exact_limit \<and> no_marker_ids simplifySlug fetchData fullSlug cfg \<longrightarrow>
      map_option set (neighbourhood simplifySlug fetchData fullSlug cfg) =
        Some (within_hops (all_links simplifySlug fetchData cfg) (nat (depth cfg)) (simplifySlug fullSlug)))"
proof (intro conjI impI)
  assume "depth cfg < 0"
  then show "map_option set (neighbourhood simplifySlug fetchData fullSlug cfg) =
        Some (set (validLinks simplifySlug fetchData) \<union>
              (if showTags cfg then set (all_tags simplifySlug fetchData cfg) else {}))"
    by (simp add: neighbourhood_unfold neighbourhood_of_def Let_def set_set_add_all)
next
  let ?slug = "simplifySlug fullSlug"
  assume a: "depth cfg = 0 \<and> ?slug \<noteq> SENTINEL"
  have "neighbourhood simplifySlug fetchData fullSlug cfg = Some [?slug]"
    unfolding neighbourhood_unfold by (rule neighbourhood_depth0) (use a in simp_all)
  then show "map_option set (neighbourhood simplifySlug fetchData fullSlug cfg) = Some {?slug}"
    by simp
next
  let ?ls = "all_links simplifySlug fetchData cfg"
  let ?slug = "simplifySlug fullSlug"
  assume a: "0 \<le> depth cfg \<and> depth cfg \<le> exact_limit \<and> no_marker_ids simplifySlug fetchData fullSlug cfg"
  then have d: "0 \<le> depth cfg" and l: "depth cfg \<le> exact_limit"
    and nm: "no_marker_ids simplifySlug fetchData fullSlug cfg" by simp_all
  have "neighbourhood simplifySlug fetchData fullSlug cfg = Some (bfs_layers ?ls (nat (depth cfg)) [?slug] [])"
    unfolding neighbourhood_unfold
    by (rule neighbourhood_of_nonneg[OF d l no_marker_links[OF nm]]) (use nm in \<open>auto simp: no_marker_ids_def\<close>)
  then show "map_option set (neighbourhood simplifySlug fetchData fullSlug cfg) =
        Some (within_hops ?ls (nat (depth cfg)) ?slug)"
    by (simp add: set_bfs_layers within_hops_from)
qed

text \<open>
  Instances on the scenario index with focal slug \<open>A\<close>: depth 2 gives \<open>A, B, C\<close>,
  depth 0 gives \<open>A\<close>, depth \<open>-1\<close> gives the whole index.
\<close>

theorem neighbourhood_correct_witness:
  "(0 \<le> depth (scenario_cfg 2) \<and> depth (scenario_cfg 2) \<le> exact_limit \<and>
    no_marker_ids (\<lambda>s. s) scenario_index ''A'' (scenario_cfg 2)) \<and>
   neighbourhood (\<lambda>s. s) scenario_index ''A'' (scenario_cfg 2) = Some [''A'', ''B'', ''C''] \<and>
   Some (set [''A'', ''B'', ''C'']) =
     Some (within_hops (all_links (\<lambda>s. s) scenario_index (scenario_cfg 2)) (nat (depth (scenario_cfg 2))) ''A'') \<and>
   (depth (scenario_cfg 0) = 0 \<and> ''A'' \<noteq> SENTINEL) \<and>
   map_option set (neighbourhood (\<lambda>s. s) scenario_index ''A'' (scenario_cfg 0)) = Some {''A''} \<and>
   depth (scenario_cfg (- 1)) < 0 \<and>
   neighbourhood (\<lambda>s. s) scenario_index ''A'' (scenario_cfg (- 1)) = Some [''A'', ''B'', ''C''] \<and>
   Some (set [''A'', ''B'', ''C'']) =
     Some (set (validLinks (\<lambda>s. s) scenario_index) \<union>
     (if showTags (scenario_cfg (- 1)) then set (all_tags (\<lambda>s. s) scenario_index (scenario_cfg (- 1))) else {}))"
proof -
  have h: "0 \<le> depth (scenario_cfg 2) \<and> depth (scenario_cfg 2) \<le> exact_limit \<and>
    no_marker_ids (\<lambda>s. s) scenario_index ''A'' (scenario_cfg 2)"
  proof (intro conjI)
    show "0 \<le> depth (scenario_cfg 2)" by (simp add: scenario_cfg_def)
    show "depth (scenario_cfg 2) \<le> exact_limit" by (simp add: scenario_cfg_def exact_limit_def)
    show "no_marker_ids (\<lambda>s. s) scenario_index ''A'' (scenario_cfg 2)" by code_simp
  qed
  have n2: "neighbourhood (\<lambda>s. s) scenario_index ''A'' (scenario_cfg 2) = Some [''A'', ''B'', ''C'']"
    by code_simp
  have n1: "neighbourhood (\<lambda>s. s) scenario_index ''A'' (scenario_cfg (- 1)) = Some [''A'', ''B'', ''C'']"
    by code_simp
  have a: "depth (scenario_cfg 0) = 0 \<and> ''A'' \<noteq> SENTINEL"
    by (simp add: scenario_cfg_def SENTINEL_def)
  have d: "depth (scenario_cfg (- 1)) < 0"
    by (simp add: scenario_cfg_def)
  note t2 = neighbourhood_correct[of "scenario_cfg 2" "\<lambda>s. s" scenario_index "''A''",
      THEN conjunct2, THEN conjunct2, rule_format, OF h]
  have h2: "Some (set [''A'', ''B'', ''C'']) =
     Some (within_hops (all_links (\<lambda>s. s) scenario_index (scenario_cfg 2)) (nat (depth (scenario_cfg 2))) ''A'')"
    using t2 by (simp only: n2 option.map)
  note t0 = neighbourhood_correct[of "scenario_cfg 0" "\<lambda>s. s" scenario_index "''A''",
      THEN conjunct2, THEN conjunct1, rule_format, OF a]
  note t1 = neighbourhood_correct[of "scenario_cfg (- 1)" "\<lambda>s. s" scenario_index "''A''",
      THEN conjunct1, rule_format, OF d]
  have h1: "Some (set [''A'', ''B'', ''C'']) =
     Some (set (validLinks (\<lambda>s. s) scenario_index) \<union>
     (if showTags (scenario_cfg (- 1)) then set (all_tags (\<lambda>s. s) scenario_index (scenario_cfg (- 1))) else {}))"
    using t1 by (simp only: n1 option.map)
  show ?thesis
    by (intro conjI) (fact h[THEN conjunct1] h[THEN conjunct2, THEN conjunct1] h[THEN conjunct2, THEN conjunct2]
        n2 h2 a[THEN conjunct1] a[THEN conjunct2] t0 d n1 h1)+
qed

text \<open>
  The claim as stated fails twice. A page with slug \<open>__SENTINEL\<close> one hop from the
  focal page \<open>A\<close> is left out at depth 1, and a focal slug \<open>__SENTINEL\<close> gives the
  empty neighbourhood at depth 0. And at the depth \<open>2^53 + 4\<close> the loop does not
  return, so that no neighbourhood is computed.
\<close>

theorem neighbourhood_marker_collision:
  "neighbourhood (\<lambda>s. s) marker_index ''A'' (scenario_cfg 1) = Some [''A''] \<and>
   ''__SENTINEL'' \<in> within_hops (all_links (\<lambda>s. s) marker_index (scenario_cfg 1)) (Suc 0) ''A'' \<and>
   ''__SENTINEL'' \<notin> set [''A''] \<and>
   neighbourhood (\<lambda>s. s) marker_index ''__SENTINEL'' (scenario_cfg 0) = Some [] \<and>
   neighbourhood (\<lambda>s. s) scenario_index ''A'' ((scenario_cfg 1)\<lparr>depth := stuck_depth\<rparr>) = None"
proof -
  have n: "neighbourhood (\<lambda>s. s) marker_index ''A'' (scenario_cfg 1) = Some [''A'']" by code_simp
  have n0: "neighbourhood (\<lambda>s. s) marker_index ''__SENTINEL'' (scenario_cfg 0) = Some []" by code_simp
  have l: "all_links (\<lambda>s. s) marker_index (scenario_cfg 1) = [\<lparr>source = ''A'', target = ''__SENTINEL''\<rparr>]"
    by code_simp
  have w: "''__SENTINEL'' \<in> within_hops (all_links (\<lambda>s. s) marker_index (scenario_cfg 1)) (Suc 0) ''A''"
    unfolding l by (simp add: linked_def)
  have m: "''__SENTINEL'' \<notin> set [''A'']" by simp
  note s = neighbourhood_stuck[of "\<lambda>s. s" scenario_index "''A''" "scenario_cfg 1"]
  show ?thesis by (intro conjI) (fact n w m n0 s)+
qed

section \<open>The rendered graph\<close>

lemma nd_id_mk_node: "nd_id (mk_node data url) = url"
  by (simp add: mk_node_def Let_def)

lemma map_of_foldl_update:
  "map_of (foldl (\<lambda>m (k, v). AList.update k v m) m0 (map (\<lambda>k. (k, g k)) ks)) x =
   (if x \<in> set ks then Some (g x) else map_of m0 x)"
  by (induction ks arbitrary: m0) (auto simp: update_conv')

lemma map_of_nodeMap:
  "map_of (new_Map (map (\<lambda>n. (nd_id n, n)) (map (mk_node data) nb))) x =
   (if x \<in> set nb then Some (mk_node data x) else None)"
proof -
  have "map (\<lambda>n. (nd_id n, n)) (map (mk_node data) nb) = map (\<lambda>k. (k, mk_node data k)) nb"
    by (simp add: nd_id_mk_node)
  then have "map_of (new_Map (map (\<lambda>n. (nd_id n, n)) (map (mk_node data) nb))) x =
             map_of (foldl (\<lambda>m (k, v). AList.update k v m) [] (map (\<lambda>k. (k, mk_node data k)) nb)) x"
    by (simp only: new_Map_def)
  also have "\<dots> = (if x \<in> set nb then Some (mk_node data x) else None)"
    by (simp only: map_of_foldl_update map_of.simps)
  finally show ?thesis .
qed

lemma resolve_links_ok:
  assumes "\<forall>l \<in> set ls. map_of nodeMap (source l) = Some (mk_node data (source l)) \<and>
                         map_of nodeMap (target l) = Some (mk_node data (target l))"
  shows "resolve_links nodeMap ls = Inr (map (link_of data) ls)"
  using assms by (induction ls) (auto simp: resolve_link_def link_of_def)

lemma graphData_of_eq:
  "graphData_of data ls nb =
   Inr \<lparr>gd_nodes = map (mk_node data) nb,
        gd_links = map (link_of data) (filter (\<lambda>l. source l \<in> set nb \<and> target l \<in> set nb) ls)\<rparr>"
proof -
  let ?nm = "new_Map (map (\<lambda>n. (nd_id n, n)) (map (mk_node data) nb))"
  let ?fl = "filter (\<lambda>l. source l \<in> set nb \<and> target l \<in> set nb) ls"
  have "resolve_links ?nm ?fl = Inr (map (link_of data) ?fl)"
    by (rule resolve_links_ok) (simp only: map_of_nodeMap, simp)
  then show ?thesis by (simp add: graphData_of_def Let_def)
qed

text \<open>
  Claim C2. For every index, focal slug and configuration, every link of the graph data
  that is built has the identifiers of both its source and its target in the computed
  neighbourhood. For every depth up to \<open>2^53\<close> (negative depths included) the
  neighbourhood and the graph data are built, without an error.
\<close>

theorem rendered_links_in_neighbourhood:
  "(\<forall>g. graphData simplifySlug fetchData fullSlug cfg = Inr g \<longrightarrow>
      (\<exists>nb. neighbourhood simplifySlug fetchData fullSlug cfg = Some nb \<and>
            (\<forall>l \<in> set (gd_links g). nd_id (ld_source l) \<in> set nb \<and> nd_id (ld_target l) \<in> set nb))) \<and>
   (depth cfg \<le> exact_limit \<longrightarrow>
      (\<exists>nb g. neighbourhood simplifySlug fetchData fullSlug cfg = Some nb \<and>
          graphData simplifySlug fetchData fullSlug cfg = Inr g \<and>
          (\<forall>l \<in> set (gd_links g). nd_id (ld_source l) \<in> set nb \<and> nd_id (ld_target l) \<in> set nb)))"
proof (intro conjI allI impI)
  fix g assume g: "graphData simplifySlug fetchData fullSlug cfg = Inr g"
  show "\<exists>nb. neighbourhood simplifySlug fetchData fullSlug cfg = Some nb \<and>
            (\<forall>l \<in> set (gd_links g). nd_id (ld_source l) \<in> set nb \<and> nd_id (ld_target l) \<in> set nb)"
  proof (cases "neighbourhood simplifySlug fetchData fullSlug cfg")
    case None
    with g show ?thesis by (simp add: graphData_def)
  next
    case (Some nb)
    with g show ?thesis
      by (auto simp: graphData_def graphData_of_eq link_of_def nd_id_mk_node)
  qed
next
  assume "depth cfg \<le> exact_limit"
  then obtain nb where nb: "neighbourhood simplifySlug fetchData fullSlug cfg = Some nb"
    using neighbourhood_returns by blast
  then show "\<exists>nb g. neighbourhood simplifySlug fetchData fullSlug cfg = Some nb \<and>
          graphData simplifySlug fetchData fullSlug cfg = Inr g \<and>
          (\<forall>l \<in> set (gd_links g). nd_id (ld_source l) \<in> set nb \<and> nd_id (ld_target l) \<in> set nb)"
    by (auto simp: graphData_def graphData_of_eq link_of_def nd_id_mk_node)
qed

text \<open>
An instance: the scenario index, focal slug \<open>A\<close>, depth 1, with the two links between \<open>A\<close> and \<open>B\<close>.
\<close>

theorem rendered_links_in_neighbourhood_witness:
  "depth (scenario_cfg 1) \<le> exact_limit \<and>
   neighbourhood (\<lambda>s. s) scenario_index ''A'' (scenario_cfg 1) = Some [''A'', ''B''] \<and>
   map_sum id (\<lambda>g. map (\<lambda>l. (nd_id (ld_source l), nd_id (ld_target l))) (gd_links g))
     (graphData (\<lambda>s. s) scenario_index ''A'' (scenario_cfg 1)) = Inr [(''A'', ''B''), (''B'', ''A'')] \<and>
   (\<exists>g. graphData (\<lambda>s. s) scenario_index ''A'' (scenario_cfg 1) = Inr g \<and>
        (\<forall>l \<in> set (gd_links g).
           nd_id (ld_source l) \<in> set [''A'', ''B''] \<and> nd_id (ld_target l) \<in> set [''A'', ''B'']))"
proof -
  have d: "depth (scenario_cfg 1) \<le> exact_limit" by (simp add: scenario_cfg_def exact_limit_def)
  have n: "neighbourhood (\<lambda>s. s) scenario_index ''A'' (scenario_cfg 1) = Some [''A'', ''B'']"
    by code_simp
  have l: "map_sum id (\<lambda>g. map (\<lambda>l. (nd_id (ld_source l), nd_id (ld_target l))) (gd_links g))
     (graphData (\<lambda>s. s) scenario_index ''A'' (scenario_cfg 1)) = Inr [(''A'', ''B''), (''B'', ''A'')]"
    by code_simp
  from rendered_links_in_neighbourhood[of "\<lambda>s. s" scenario_index "''A''" "scenario_cfg 1",
      THEN conjunct2, rule_format, OF d]
  obtain nb g where nb: "neighbourhood (\<lambda>s. s) scenario_index ''A'' (scenario_cfg 1) = Some nb"
    and g: "graphData (\<lambda>s. s) scenario_index ''A'' (scenario_cfg 1) = Inr g"
    and q: "\<forall>l \<in> set (gd_links g). nd_id (ld_source l) \<in> set nb \<and> nd_id (ld_target l) \<in> set nb"
    by (elim exE conjE)
  from nb have nbeq: "nb = [''A'', ''B'']" by (simp only: n option.inject)
  have e: "\<exists>g. graphData (\<lambda>s. s) scenario_index ''A'' (scenario_cfg 1) = Inr g \<and>
        (\<forall>l \<in> set (gd_links g).
           nd_id (ld_source l) \<in> set [''A'', ''B''] \<and> nd_id (ld_target l) \<in> set [''A'', ''B''])"
    using g q unfolding nbeq by (intro exI conjI)
  show ?thesis by (intro conjI) (fact d n l e)+
qed

lemma bfs_loop_only_sentinel:
  "int n \<le> exact_limit \<Longrightarrow>
   map_option (\<lambda>s. snd (snd s)) (bfs_loop ls (int n, [SENTINEL], nb)) = Some nb"
proof (induction n)
  case 0
  have z: "js_decrement 0 = - 1" using js_decrement_exact[of 0] by (simp add: exact_limit_def)
  show ?case using bfs_loop_sentinel[of 0 ls "[]" nb] by (simp add: z bfs_loop_exit)
next
  case (Suc n)
  have dec: "js_decrement (int (Suc n)) = int n"
    using js_decrement_exact[of "int (Suc n)"] Suc.prems by simp
  have "bfs_loop ls (int (Suc n), [SENTINEL], nb) = bfs_loop ls (js_decrement (int (Suc n)), [] @ [SENTINEL], nb)"
    by (rule bfs_loop_sentinel) simp
  then have "bfs_loop ls (int (Suc n), [SENTINEL], nb) = bfs_loop ls (int n, [SENTINEL], nb)"
    by (simp only: dec append_Nil)
  moreover have "int n \<le> exact_limit" using Suc.prems by simp
  ultimately show ?case using Suc.IH by (simp only:)
qed

lemma neighbours_isolated:
  assumes "\<forall>l \<in> set ls. source l \<noteq> x \<and> target l \<noteq> x"
  shows "neighbours ls x = []"
  using assms by (auto simp: neighbours_def filter_empty_conv)

lemma neighbourhood_of_isolated:
  assumes "0 \<le> depth cfg" and "depth cfg \<le> exact_limit" and "slug \<noteq> SENTINEL"
    and "\<forall>l \<in> set ls. source l \<noteq> slug \<and> target l \<noteq> slug"
  shows "neighbourhood_of ls tgs V cfg slug = Some [slug]"
proof -
  have "bfs_loop ls (bfs_init (depth cfg) slug) = bfs_loop ls (int (nat (depth cfg)), [SENTINEL], [slug])"
    using assms(1,3) bfs_loop_node[of "depth cfg" slug ls "[SENTINEL]" "[]"]
    by (simp add: bfs_init_def neighbours_isolated[OF assms(4)] set_add_def)
  moreover have "int (nat (depth cfg)) \<le> exact_limit" using assms(1,2) by simp
  ultimately show ?thesis using assms(1) bfs_loop_only_sentinel[of "nat (depth cfg)" ls "[slug]"]
    by (simp add: neighbourhood_of_def)
qed

lemma mk_node_missing:
  assumes "url \<notin> set (map fst data)"
  shows "mk_node data url =
         \<lparr>nd_id = url,
          nd_text = (if startsWith url ''tags/'' then ''#'' @ drop 5 url else url),
          nd_tags = [], sourcePath = None,
          isContentNode = False, isConceptTopicNode = False, isDatasetTopicNode = False,
          isLibraryTopicNode = False, isModelTopicNode = False, isPlatformTopicNode = False,
          isToolTopicNode = False\<rparr>"
proof -
  from assms have "map_of data url = None" by (simp add: map_of_eq_None_iff)
  then show ?thesis by (simp add: mk_node_def has_segment_def)
qed

text \<open>
  Claim C3, as amended. For a focal slug that is not a key of the content index, that
  is not the slug of a tag either and is not the marker string, and for every depth
  from 0 up to \<open>2^53\<close>, the graph has exactly one node and no link: the node of the
  focal slug, with the slug itself as its text (after \<open>#\<close>, without the prefix, for a
  slug that starts with \<open>tags/\<close>), no tags, no source path and no category flag.
\<close>

theorem missing_focal_graph:
  assumes "simplifySlug fullSlug \<notin> set (validLinks simplifySlug fetchData)"
    and "simplifySlug fullSlug \<notin> set (all_tags simplifySlug fetchData cfg)"
    and "simplifySlug fullSlug \<noteq> SENTINEL"
    and "0 \<le> depth cfg" and "depth cfg \<le> exact_limit"
  shows "graphData simplifySlug fetchData fullSlug cfg =
         Inr \<lparr>gd_nodes =
                [\<lparr>nd_id = simplifySlug fullSlug,
                  nd_text = (if startsWith (simplifySlug fullSlug) ''tags/''
                             then ''#'' @ drop 5 (simplifySlug fullSlug) else simplifySlug fullSlug),
                  nd_tags = [], sourcePath = None,
                  isContentNode = False, isConceptTopicNode = False, isDatasetTopicNode = False,
                  isLibraryTopicNode = False, isModelTopicNode = False, isPlatformTopicNode = False,
                  isToolTopicNode = False\<rparr>],
              gd_links = []\<rparr>"
proof -
  let ?ls = "all_links simplifySlug fetchData cfg"
  let ?slug = "simplifySlug fullSlug"
  have iso: "\<forall>l \<in> set ?ls. source l \<noteq> ?slug \<and> target l \<noteq> ?slug"
  proof
    fix l assume "l \<in> set ?ls"
    from all_links_endpoints[OF this] assms(1,2)
    show "source l \<noteq> ?slug \<and> target l \<noteq> ?slug" by auto
  qed
  have nb: "neighbourhood simplifySlug fetchData fullSlug cfg = Some [?slug]"
    unfolding neighbourhood_unfold by (rule neighbourhood_of_isolated[OF assms(4,5,3) iso])
  have fl: "filter (\<lambda>l. source l \<in> set [?slug] \<and> target l \<in> set [?slug]) ?ls = []"
    using iso by (auto simp: filter_empty_conv)
  have mk: "mk_node (index_data simplifySlug fetchData) ?slug =
         \<lparr>nd_id = ?slug,
          nd_text = (if startsWith ?slug ''tags/'' then ''#'' @ drop 5 ?slug else ?slug),
          nd_tags = [], sourcePath = None,
          isContentNode = False, isConceptTopicNode = False, isDatasetTopicNode = False,
          isLibraryTopicNode = False, isModelTopicNode = False, isPlatformTopicNode = False,
          isToolTopicNode = False\<rparr>"
    by (rule mk_node_missing) (use assms(1) in \<open>simp add: validLinks_def\<close>)
  have "graphData simplifySlug fetchData fullSlug cfg =
         Inr \<lparr>gd_nodes = [mk_node (index_data simplifySlug fetchData) ?slug], gd_links = []\<rparr>"
    using fl by (simp add: graphData_def nb graphData_of_eq)
  then show ?thesis by (simp only: mk)
qed

text \<open>
An instance: the slug \<open>Z\<close>, which the scenario index does not have.
\<close>

theorem missing_focal_graph_witness:
  "''Z'' \<notin> set (validLinks (\<lambda>s. s) scenario_index) \<and>
   ''Z'' \<notin> set (all_tags (\<lambda>s. s) scenario_index (scenario_cfg 1)) \<and>
   ''Z'' \<noteq> SENTINEL \<and> 0 \<le> depth (scenario_cfg 1) \<and> depth (scenario_cfg 1) \<le> exact_limit \<and>
   graphData (\<lambda>s. s) scenario_index ''Z'' (scenario_cfg 1) =
     Inr \<lparr>gd_nodes =
            [\<lparr>nd_id = ''Z'',
              nd_text = (if startsWith ''Z'' ''tags/'' then ''#'' @ drop 5 ''Z'' else ''Z''),
              nd_tags = [], sourcePath = None,
              isContentNode = False, isConceptTopicNode = False, isDatasetTopicNode = False,
              isLibraryTopicNode = False, isModelTopicNode = False, isPlatformTopicNode = False,
              isToolTopicNode = False\<rparr>],
          gd_links = []\<rparr> \<and>
   \<not> startsWith ''Z'' ''tags/''"
proof -
  have a: "''Z'' \<notin> set (validLinks (\<lambda>s. s) scenario_index)" by code_simp
  have b: "''Z'' \<notin> set (all_tags (\<lambda>s. s) scenario_index (scenario_cfg 1))" by code_simp
  have c: "''Z'' \<noteq> SENTINEL" by (simp add: SENTINEL_def)
  have d: "0 \<le> depth (scenario_cfg 1)" by (simp add: scenario_cfg_def)
  have l: "depth (scenario_cfg 1) \<le> exact_limit" by (simp add: scenario_cfg_def exact_limit_def)
  note e = missing_focal_graph[of "\<lambda>s. s" "''Z''" scenario_index "scenario_cfg 1", OF a b c d l]
  have t: "\<not> startsWith ''Z'' ''tags/''" by code_simp
  show ?thesis by (intro conjI) (fact a b c d l e t)+
qed

text \<open>
  The claim as stated fails: for a focal slug outside the index the node list is not
  empty at depth 1, and at the depth \<open>2^53 + 4\<close> no graph is built at all.
\<close>

theorem missing_focal_not_empty:
  "''Z'' \<notin> set (validLinks (\<lambda>s. s) scenario_index) \<and>
   map_sum id (\<lambda>g. map nd_id (gd_nodes g)) (graphData (\<lambda>s. s) scenario_index ''Z'' (scenario_cfg 1)) = Inr [''Z''] \<and>
   graphData (\<lambda>s. s) scenario_index ''Z'' ((scenario_cfg 1)\<lparr>depth := stuck_depth\<rparr>) = Inl LoopDiverges"
proof -
  have a: "''Z'' \<notin> set (validLinks (\<lambda>s. s) scenario_index)" by code_simp
  have b: "map_sum id (\<lambda>g. map nd_id (gd_nodes g)) (graphData (\<lambda>s. s) scenario_index ''Z'' (scenario_cfg 1)) = Inr [''Z'']"
    by code_simp
  have c: "graphData (\<lambda>s. s) scenario_index ''Z'' ((scenario_cfg 1)\<lparr>depth := stuck_depth\<rparr>) = Inl LoopDiverges"
    by (simp add: graphData_def neighbourhood_stuck)
  show ?thesis by (intro conjI) (fact a b c)+
qed

lemma mk_node_flags:
  "(has_segment (sourcePath (mk_node data url)) ''Model/'' \<longrightarrow> isModelTopicNode (mk_node data url)) \<and>
   (isConceptTopicNode (mk_node data url) \<longleftrightarrow> has_segment (sourcePath (mk_node data url)) ''Concept/'') \<and>
   (isDatasetTopicNode (mk_node data url) \<longleftrightarrow> has_segment (sourcePath (mk_node data url)) ''Dataset/'') \<and>
   (isLibraryTopicNode (mk_node data url) \<longleftrightarrow> has_segment (sourcePath (mk_node data url)) ''Library/'') \<and>
   (isPlatformTopicNode (mk_node data url) \<longleftrightarrow> has_segment (sourcePath (mk_node data url)) ''Platform/'') \<and>
   (isToolTopicNode (mk_node data url) \<longleftrightarrow> has_segment (sourcePath (mk_node data url)) ''Tool/'') \<and>
   (startsWith (nd_id (mk_node data url)) ''tags/'' \<longrightarrow> isTagNode (mk_node data url))"
  by (simp add: mk_node_def Let_def isTagNode_def)

lemma graphData_nodes:
  assumes "graphData simplifySlug fetchData fullSlug cfg = Inr g"
  shows "\<exists>nb. gd_nodes g = map (mk_node (index_data simplifySlug fetchData)) nb"
proof (cases "neighbourhood simplifySlug fetchData fullSlug cfg")
  case None
  with assms show ?thesis by (simp add: graphData_def)
next
  case (Some nb)
  with assms have "gd_nodes g = map (mk_node (index_data simplifySlug fetchData)) nb"
    by (auto simp: graphData_def graphData_of_eq)
  then show ?thesis by (rule exI)
qed

text \<open>
  Claim C6, as amended. For every node of the graph data: if its source path has the
  segment \<open>Model/\<close> (the path starts with \<open>Model/\<close> or contains \<open>/Model/\<close>), its flag
  \<open>isModelTopicNode\<close> is set; each other topic flag is set exactly when the path has
  the segment of that topic, so that no other topic flag is set when the path has none
  of the segments \<open>Concept/\<close>, \<open>Dataset/\<close>, \<open>Library/\<close>, \<open>Platform/\<close>, \<open>Tool/\<close>;
  and every node whose identifier starts with \<open>tags/\<close> is a tag node.
\<close>

theorem node_categorisation:
  assumes "graphData simplifySlug fetchData fullSlug cfg = Inr g"
  shows "\<forall>n \<in> set (gd_nodes g).
     (has_segment (sourcePath n) ''Model/'' \<longrightarrow> isModelTopicNode n) \<and>
     (isConceptTopicNode n \<longleftrightarrow> has_segment (sourcePath n) ''Concept/'') \<and>
     (isDatasetTopicNode n \<longleftrightarrow> has_segment (sourcePath n) ''Dataset/'') \<and>
     (isLibraryTopicNode n \<longleftrightarrow> has_segment (sourcePath n) ''Library/'') \<and>
     (isPlatformTopicNode n \<longleftrightarrow> has_segment (sourcePath n) ''Platform/'') \<and>
     (isToolTopicNode n \<longleftrightarrow> has_segment (sourcePath n) ''Tool/'') \<and>
     (startsWith (nd_id n) ''tags/'' \<longrightarrow> isTagNode n)"
proof
  fix n assume n: "n \<in> set (gd_nodes g)"
  from graphData_nodes[OF assms] obtain nb where
    "gd_nodes g = map (mk_node (index_data simplifySlug fetchData)) nb" ..
  with n obtain url where u: "n = mk_node (index_data simplifySlug fetchData) url"
    by auto
  show "(has_segment (sourcePath n) ''Model/'' \<longrightarrow> isModelTopicNode n) \<and>
     (isConceptTopicNode n \<longleftrightarrow> has_segment (sourcePath n) ''Concept/'') \<and>
     (isDatasetTopicNode n \<longleftrightarrow> has_segment (sourcePath n) ''Dataset/'') \<and>
     (isLibraryTopicNode n \<longleftrightarrow> has_segment (sourcePath n) ''Library/'') \<and>
     (isPlatformTopicNode n \<longleftrightarrow> has_segment (sourcePath n) ''Platform/'') \<and>
     (isToolTopicNode n \<longleftrightarrow> has_segment (sourcePath n) ''Tool/'') \<and>
     (startsWith (nd_id n) ''tags/'' \<longrightarrow> isTagNode n)"
    unfolding u by (rule mk_node_flags)
qed

text \<open>
  An instance: the scenario index with tags shown, focal slug \<open>A\<close>, depth 1. The nodes
  are \<open>A\<close> (path \<open>Model/A.md\<close>), \<open>B\<close> and the tag \<open>tags/ml\<close>.
\<close>

theorem node_categorisation_witness:
  "graphData (\<lambda>s. s) scenario_index ''A'' tags_cfg = Inr tagged_graph \<and>
   map (\<lambda>n. (nd_id n, sourcePath n, isModelTopicNode n, isConceptTopicNode n, isTagNode n))
       (gd_nodes tagged_graph) =
     [(''A'', Some ''Model/A.md'', True, False, False),
      (''B'', Some ''Concept/Model/B.md'', True, True, False),
      (''tags/ml'', None, False, False, True)] \<and>
   list_all (\<lambda>n.
     (has_segment (sourcePath n) ''Model/'' \<longrightarrow> isModelTopicNode n) \<and>
     (isConceptTopicNode n \<longleftrightarrow> has_segment (sourcePath n) ''Concept/'') \<and>
     (isDatasetTopicNode n \<longleftrightarrow> has_segment (sourcePath n) ''Dataset/'') \<and>
     (isLibraryTopicNode n \<longleftrightarrow> has_segment (sourcePath n) ''Library/'') \<and>
     (isPlatformTopicNode n \<longleftrightarrow> has_segment (sourcePath n) ''Platform/'') \<and>
     (isToolTopicNode n \<longleftrightarrow> has_segment (sourcePath n) ''Tool/'') \<and>
     (startsWith (nd_id n) ''tags/'' \<longrightarrow> isTagNode n)) (gd_nodes tagged_graph)"
proof -
  have g: "graphData (\<lambda>s. s) scenario_index ''A'' tags_cfg = Inr tagged_graph"
    by code_simp
  have v: "map (\<lambda>n. (nd_id n, sourcePath n, isModelTopicNode n, isConceptTopicNode n, isTagNode n))
       (gd_nodes tagged_graph) =
     [(''A'', Some ''Model/A.md'', True, False, False),
      (''B'', Some ''Concept/Model/B.md'', True, True, False),
      (''tags/ml'', None, False, False, True)]"
    by code_simp
  note q = node_categorisation[OF g, folded list_all_iff]
  show ?thesis by (intro conjI) (fact g v q)+
qed

text \<open>
  A source path with two topic segments sets two topic flags: the node of
  \<open>Concept/Model/B.md\<close> has the segment \<open>Model/\<close> and is flagged as a concept
  topic as well.
\<close>

theorem model_and_concept_flags:
  "map_sum id (\<lambda>g. map (\<lambda>n. (sourcePath n, isModelTopicNode n, isConceptTopicNode n)) (gd_nodes g))
     (graphData (\<lambda>s. s) scenario_index ''B'' (scenario_cfg 0)) =
   Inr [(Some ''Concept/Model/B.md'', True, True)] \<and>
   has_segment (Some ''Concept/Model/B.md'') ''Model/''"
  by code_simp

section \<open>Hover\<close>

lemma set_hover_neighbours_aux:
  "set (foldl (\<lambda>acc l.
              if incident h (l_simulationData l)
              then set_add (set_add acc (nd_id (ld_source (l_simulationData l))))
                           (nd_id (ld_target (l_simulationData l)))
              else acc) acc0 lrd) =
   set acc0 \<union> {n. \<exists>l \<in> set lrd. incident h (l_simulationData l) \<and>
                     (n = nd_id (ld_source (l_simulationData l)) \<or> n = nd_id (ld_target (l_simulationData l)))}"
  by (induction lrd arbitrary: acc0) (auto simp: set_add_def)

lemma set_hover_neighbours:
  "set (hover_neighbours h lrd) =
   {n. \<exists>l \<in> set lrd. incident h (l_simulationData l) \<and>
         (n = nd_id (ld_source (l_simulationData l)) \<or> n = nd_id (ld_target (l_simulationData l)))}"
  unfolding hover_neighbours_def by (simp add: set_hover_neighbours_aux)

lemma hover_neighbours_char:
  "n \<in> set (hover_neighbours h lrd) \<longleftrightarrow>
     other_end h lrd n \<or> (n = h \<and> (\<exists>l \<in> set lrd. incident h (l_simulationData l)))"
  unfolding set_hover_neighbours other_end_def incident_def by auto

text \<open>
  Claim C5, as amended. For every graph and every node identifier \<open>a\<close>: hovering \<open>a\<close>
  sets the active flag on exactly the links incident to \<open>a\<close>, and on exactly the nodes
  that are an end of such a link, that is the nodes at the other end and, when \<open>a\<close> has
  an incident link, \<open>a\<close> itself; leaving (the hovered identifier becomes null) clears
  the active flag on every node and every link.
\<close>

theorem hover_activation:
  "map l_active (linkRenderData (updateHoverInfo (Some a) st)) =
     map (\<lambda>l. incident a (l_simulationData l)) (linkRenderData st) \<and>
   map n_active (nodeRenderData (updateHoverInfo (Some a) st)) =
     map (\<lambda>n. other_end a (linkRenderData st) (nd_id (n_simulationData n)) \<or>
              (nd_id (n_simulationData n) = a \<and>
               (\<exists>l \<in> set (linkRenderData st). incident a (l_simulationData l))))
         (nodeRenderData st) \<and>
   (\<forall>n \<in> set (nodeRenderData (updateHoverInfo None st)). \<not> n_active n) \<and>
   (\<forall>l \<in> set (linkRenderData (updateHoverInfo None st)). \<not> l_active l)"
  by (auto simp: updateHoverInfo_def Let_def hover_neighbours_char)

text \<open>
An instance: hovering \<open>A\<close> in the mounted scenario graph, then leaving it.
\<close>

theorem hover_activation_witness:
  "map (\<lambda>n. nd_id (n_simulationData n)) (nodeRenderData hover_instance) = [''A'', ''B''] \<and>
   map l_active (linkRenderData (updateHoverInfo (Some ''A'') hover_instance)) = [True, True] \<and>
   map n_active (nodeRenderData (updateHoverInfo (Some ''A'') hover_instance)) = [True, True] \<and>
   map n_active (nodeRenderData (updateHoverInfo (Some ''A'') hover_instance)) =
     map (\<lambda>n. other_end ''A'' (linkRenderData hover_instance) (nd_id (n_simulationData n)) \<or>
              (nd_id (n_simulationData n) = ''A'' \<and>
               (\<exists>l \<in> set (linkRenderData hover_instance). incident ''A'' (l_simulationData l))))
         (nodeRenderData hover_instance) \<and>
   list_all (\<lambda>n. \<not> n_active n)
     (nodeRenderData (updateHoverInfo None (updateHoverInfo (Some ''A'') hover_instance))) \<and>
   list_all (\<lambda>l. \<not> l_active l)
     (linkRenderData (updateHoverInfo None (updateHoverInfo (Some ''A'') hover_instance))) \<and>
   length (nodeRenderData (updateHoverInfo None (updateHoverInfo (Some ''A'') hover_instance))) = 2 \<and>
   length (linkRenderData (updateHoverInfo None (updateHoverInfo (Some ''A'') hover_instance))) = 2"
proof -
  have i: "map (\<lambda>n. nd_id (n_simulationData n)) (nodeRenderData hover_instance) = [''A'', ''B'']"
    by code_simp
  have l: "map l_active (linkRenderData (updateHoverInfo (Some ''A'') hover_instance)) = [True, True]"
    by code_simp
  have n: "map n_active (nodeRenderData (updateHoverInfo (Some ''A'') hover_instance)) = [True, True]"
    by code_simp
  note h = hover_activation[of "''A''" hover_instance]
  note h2 = h[THEN conjunct2, THEN conjunct1]
  note g = hover_activation[of "''A''" "updateHoverInfo (Some ''A'') hover_instance"]
  note g3 = g[THEN conjunct2, THEN conjunct2, THEN conjunct1, folded list_all_iff]
  note g4 = g[THEN conjunct2, THEN conjunct2, THEN conjunct2, folded list_all_iff]
  have k1: "length (nodeRenderData (updateHoverInfo None (updateHoverInfo (Some ''A'') hover_instance))) = 2"
    by code_simp
  have k2: "length (linkRenderData (updateHoverInfo None (updateHoverInfo (Some ''A'') hover_instance))) = 2"
    by code_simp
  show ?thesis by (intro conjI) (fact i l n h2 g3 g4 k1 k2)+
qed

text \<open>
  The hovered node itself becomes active although it is not at the other end of any of
  its links.
\<close>

theorem hovered_node_is_active:
  "map (\<lambda>n. nd_id (n_simulationData n)) (nodeRenderData hover_instance) = [''A'', ''B''] \<and>
   map n_active (nodeRenderData (updateHoverInfo (Some ''A'') hover_instance)) = [True, True] \<and>
   \<not> other_end ''A'' (linkRenderData hover_instance) ''A''"
  by code_simp

section \<open>The frame loop\<close>

lemma tweens_updateHoverInfo: "tweens (updateHoverInfo h st) = tweens st"
  by (cases h) (simp_all add: updateHoverInfo_def Let_def)

lemma frames_updateHoverInfo:
  "frames (updateHoverInfo h st) = frames st \<and>
   animationRunning (updateHoverInfo h st) = animationRunning st \<and>
   stopAnimation (updateHoverInfo h st) = stopAnimation st \<and>
   dragging (updateHoverInfo h st) = dragging st"
  by (cases h) (simp_all add: updateHoverInfo_def Let_def)

lemma renderPixiFromD3_frames:
  "frames (renderPixiFromD3 gray lightgray now st) =
     (if \<not> animationRunning st \<and> \<not> stopAnimation st then frames st + 1 else frames st) \<and>
   animationRunning (renderPixiFromD3 gray lightgray now st) =
     (animationRunning st \<or> \<not> stopAnimation st)"
  by (simp add: renderPixiFromD3_def ensureAnimating_def renderLabels_def renderLinks_def
      renderNodes_def tweens_set_def)

lemma pointerover_frames:
  assumes "\<not> dragging st"
  shows "frames (pointerover nodeId gray lightgray now st) =
           (if \<not> animationRunning st \<and> \<not> stopAnimation st then frames st + 1 else frames st) \<and>
         animationRunning (pointerover nodeId gray lightgray now st) =
           (animationRunning st \<or> \<not> stopAnimation st)"
  using assms
  by (simp add: pointerover_def Let_def renderPixiFromD3_frames frames_updateHoverInfo
      clearGraphPopover_def)

text \<open>
  What one run of \<open>animate\<close> does to the requested callbacks and to
  \<open>animationRunning\<close>, and what it leaves alone.
\<close>

lemma animate_frames:
  assumes "0 < frames st"
  shows "frames (animate time alpha alphaMin st) =
           (if stopAnimation st \<or> (alpha < alphaMin \<and> tweens st = []) then frames st - 1 else frames st)"
  using assms by (simp add: animate_def Let_def)

lemma animate_running:
  "animationRunning (animate time alpha alphaMin st) =
     (animationRunning st \<and> \<not> (stopAnimation st \<or> (alpha < alphaMin \<and> tweens st = [])))"
  by (simp add: animate_def Let_def)

lemma animate_keeps:
  "tweens (animate time alpha alphaMin st) = tweens st \<and>
   dragging (animate time alpha alphaMin st) = dragging st \<and>
   stopAnimation (animate time alpha alphaMin st) = stopAnimation st"
  by (simp add: animate_def Let_def)

text \<open>
  The map of transitions only grows: \<open>animate\<close> updates the stored transitions and
  removes none, and the three render functions store under fixed keys.
\<close>

lemma run_frames_keeps_tweens:
  "tweens (run_frames ts alpha alphaMin st) = tweens st"
  unfolding run_frames_def
  by (induction ts arbitrary: st) (simp_all add: animate_keeps)

lemma run_frames_goes_on:
  assumes "tweens st \<noteq> []" and "\<not> stopAnimation st" and "frames st = 1" and "animationRunning st"
  shows "frames (run_frames ts alpha alphaMin st) = 1 \<and> animationRunning (run_frames ts alpha alphaMin st)"
  using assms unfolding run_frames_def
proof (induction ts arbitrary: st)
  case Nil
  then show ?case by simp
next
  case (Cons t ts)
  have 1: "tweens (animate t alpha alphaMin st) \<noteq> []" using Cons.prems(1) by (simp add: animate_keeps)
  have 2: "\<not> stopAnimation (animate t alpha alphaMin st)" using Cons.prems(2) by (simp add: animate_keeps)
  have 3: "frames (animate t alpha alphaMin st) = 1"
    using Cons.prems animate_frames[of st t alpha alphaMin] by simp
  have 4: "animationRunning (animate t alpha alphaMin st)"
    using Cons.prems by (simp add: animate_running)
  from Cons.IH[OF 1 2 3 4] show ?case by simp
qed

lemma pointerover_tweens:
  assumes "\<not> dragging st"
  shows "tweens (pointerover nodeId gray lightgray now st) =
         AList.update ''label'' \<lparr>tw_start = now, tw_duration = 100\<rparr>
           (AList.update ''link'' \<lparr>tw_start = now, tw_duration = 200\<rparr>
              (AList.update ''hover'' \<lparr>tw_start = now, tw_duration = 200\<rparr> (tweens st)))"
  using assms
  by (simp add: pointerover_def Let_def renderPixiFromD3_def ensureAnimating_def renderLabels_def
        renderLinks_def renderNodes_def tweens_set_def frames_updateHoverInfo tweens_updateHoverInfo
        clearGraphPopover_def)

lemma pointerover_stopAnimation:
  "stopAnimation (pointerover nodeId gray lightgray now st) = stopAnimation st"
  by (simp add: pointerover_def Let_def renderPixiFromD3_def ensureAnimating_def renderLabels_def
        renderLinks_def renderNodes_def tweens_set_def frames_updateHoverInfo clearGraphPopover_def)

lemma hover_instance_loop:
  "frames hover_instance = 1 \<and> tweens hover_instance = [] \<and> \<not> stopAnimation hover_instance \<and>
   \<not> dragging hover_instance \<and> animationRunning hover_instance"
  by (simp add: hover_instance_def mounted_def)

lemma cooled_instance_loop:
  "frames (animate 16 0 (1 / 1000) hover_instance) = 0 \<and>
   tweens (animate 16 0 (1 / 1000) hover_instance) = [] \<and>
   \<not> stopAnimation (animate 16 0 (1 / 1000) hover_instance) \<and>
   \<not> dragging (animate 16 0 (1 / 1000) hover_instance) \<and>
   \<not> animationRunning (animate 16 0 (1 / 1000) hover_instance)"
  using hover_instance_loop animate_frames[of hover_instance 16 0 "1 / 1000"]
  by (simp add: animate_keeps animate_running)

lemma hovered_instance_loop:
  "frames hovered_instance = 1 \<and> animationRunning hovered_instance \<and>
   \<not> stopAnimation hovered_instance \<and>
   tweens hovered_instance =
     [(''hover'', \<lparr>tw_start = 500, tw_duration = 200\<rparr>),
      (''link'', \<lparr>tw_start = 500, tw_duration = 200\<rparr>),
      (''label'', \<lparr>tw_start = 500, tw_duration = 100\<rparr>)]"
proof -
  note c = cooled_instance_loop
  have d: "\<not> dragging (animate 16 0 (1 / 1000) hover_instance)" using c by simp
  have a: "frames hovered_instance = 1" "animationRunning hovered_instance"
    unfolding hovered_instance_def
    using pointerover_frames[OF d, of "''A''" "''gray''" "''lightgray''" 500] c by simp_all
  have b: "\<not> stopAnimation hovered_instance"
    unfolding hovered_instance_def using c by (simp add: pointerover_stopAnimation)
  have t: "tweens hovered_instance =
     [(''hover'', \<lparr>tw_start = 500, tw_duration = 200\<rparr>),
      (''link'', \<lparr>tw_start = 500, tw_duration = 200\<rparr>),
      (''label'', \<lparr>tw_start = 500, tw_duration = 100\<rparr>)]"
    unfolding hovered_instance_def pointerover_tweens[OF d] using c by simp
  show ?thesis by (intro conjI) (fact a b t)+
qed

text \<open>
  Claim C4. The code breaks the claim. The stop test of \<open>animate\<close> is commented
  ``stop the loop once simulation has cooled down and no tweens are active'' and reads
  \<open>tweens.size === 0\<close>, but no statement takes a transition out of \<open>tweens\<close> when it
  completes. On the mounted scenario graph the loop stops by itself in the first frame
  with a cooled simulation, and a hover on \<open>A\<close> at time 500 restarts exactly one chain
  of callbacks. From then on the three transitions of the hover, complete from time 700
  on, stay in the map, and with the simulation still cooled \<open>animate\<close> requests the next
  frame again, whatever the times of the frames and however many there are.
\<close>

theorem completed_transitions_stay:
  "frames (animate 16 0 (1 / 1000) hover_instance) = 0 \<and>
   \<not> animationRunning (animate 16 0 (1 / 1000) hover_instance) \<and>
   frames hovered_instance = 1 \<and> animationRunning hovered_instance \<and>
   map (\<lambda>(key, tw). (key, completed 1000 tw)) (tweens (animate 1000 0 (1 / 1000) hovered_instance)) =
     [(''hover'', True), (''link'', True), (''label'', True)] \<and>
   frames (animate 1000 0 (1 / 1000) hovered_instance) = 1 \<and>
   animationRunning (animate 1000 0 (1 / 1000) hovered_instance) \<and>
   (\<forall>ts. frames (run_frames ts 0 (1 / 1000) hovered_instance) = 1 \<and>
         animationRunning (run_frames ts 0 (1 / 1000) hovered_instance) \<and>
         map fst (tweens (run_frames ts 0 (1 / 1000) hovered_instance)) = [''hover'', ''link'', ''label''])"
proof -
  note c = cooled_instance_loop
  note h = hovered_instance_loop
  have tw: "tweens hovered_instance =
     [(''hover'', \<lparr>tw_start = 500, tw_duration = 200\<rparr>),
      (''link'', \<lparr>tw_start = 500, tw_duration = 200\<rparr>),
      (''label'', \<lparr>tw_start = 500, tw_duration = 100\<rparr>)]"
    using h by simp
  have ne: "tweens hovered_instance \<noteq> []" unfolding tw by simp
  have ns: "\<not> stopAnimation hovered_instance" using h by simp
  have fr: "frames hovered_instance = 1" using h by simp
  have ru: "animationRunning hovered_instance" using h by simp
  have a1: "frames (animate 16 0 (1 / 1000) hover_instance) = 0" using c by simp
  have a2: "\<not> animationRunning (animate 16 0 (1 / 1000) hover_instance)" using c by simp
  have a3: "map (\<lambda>(key, tw). (key, completed 1000 tw)) (tweens (animate 1000 0 (1 / 1000) hovered_instance)) =
     [(''hover'', True), (''link'', True), (''label'', True)]"
    by (simp add: animate_keeps tw completed_def)
  have a4: "frames (animate 1000 0 (1 / 1000) hovered_instance) = 1"
    using animate_frames[of hovered_instance 1000 0 "1 / 1000"] fr ns ne by simp
  have a5: "animationRunning (animate 1000 0 (1 / 1000) hovered_instance)"
    using ru ns ne by (simp add: animate_running)
  have a6: "\<forall>ts. frames (run_frames ts 0 (1 / 1000) hovered_instance) = 1 \<and>
         animationRunning (run_frames ts 0 (1 / 1000) hovered_instance) \<and>
         map fst (tweens (run_frames ts 0 (1 / 1000) hovered_instance)) = [''hover'', ''link'', ''label'']"
  proof
    fix ts
    note g = run_frames_goes_on[OF ne ns fr ru, of ts 0 "1 / 1000"]
    have k: "map fst (tweens (run_frames ts 0 (1 / 1000) hovered_instance)) = [''hover'', ''link'', ''label'']"
      by (simp add: run_frames_keeps_tweens tw)
    show "frames (run_frames ts 0 (1 / 1000) hovered_instance) = 1 \<and>
         animationRunning (run_frames ts 0 (1 / 1000) hovered_instance) \<and>
         map fst (tweens (run_frames ts 0 (1 / 1000) hovered_instance)) = [''hover'', ''link'', ''label'']"
      by (intro conjI) (fact g[THEN conjunct1] g[THEN conjunct2] k)+
  qed
  show ?thesis by (intro conjI) (fact a1 a2 fr ru a3 a4 a5 a6)+
qed

section \<open>Teardown\<close>

text \<open>
  Claim C7, as amended. Calling the cleanup closure of a mounted graph twice leaves
  \<open>stopAnimation\<close> set, no active popover, no popover timer, the key listeners removed
  and the popover elements of the document as the first call left them (those of before
  without the active one); \<open>ensureAnimating\<close> then requests nothing and a pending
  \<open>animate\<close> callback returns without requesting another. The second call changes
  nothing of the state but the count of \<open>app.destroy()\<close> calls, which every call of
  cleanup raises by one: the application is destroyed a second time, and each call
  throws exactly when that call of the library's \<open>destroy\<close> throws.
\<close>

theorem teardown_twice:
  "cleanup_twice destroy_throws st =
     ((if destroy_throws (destroy_calls st) then Some DestroyThrew else None),
      (if destroy_throws (destroy_calls st + 1) then Some DestroyThrew else None),
      (snd (cleanup destroy_throws st))\<lparr>destroy_calls := destroy_calls st + 2\<rparr>) \<and>
   destroy_calls (snd (cleanup destroy_throws st)) = destroy_calls st + 1 \<and>
   stopAnimation (snd (snd (cleanup_twice destroy_throws st))) \<and>
   activePopover (snd (snd (cleanup_twice destroy_throws st))) = None \<and>
   popoverTimeout (snd (snd (cleanup_twice destroy_throws st))) = None \<and>
   \<not> hideTimeout (snd (snd (cleanup_twice destroy_throws st))) \<and>
   \<not> key_listeners (snd (snd (cleanup_twice destroy_throws st))) \<and>
   document_popovers (snd (snd (cleanup_twice destroy_throws st))) =
     (case activePopover st of
        None \<Rightarrow> document_popovers st
      | Some el \<Rightarrow> removeAll el (document_popovers st)) \<and>
   ensureAnimating (snd (snd (cleanup_twice destroy_throws st))) = snd (snd (cleanup_twice destroy_throws st)) \<and>
   frames (snd (snd (cleanup_twice destroy_throws st))) = frames st \<and>
   frames (animate time alpha alphaMin (snd (snd (cleanup_twice destroy_throws st)))) = frames st - 1 \<and>
   \<not> animationRunning (animate time alpha alphaMin (snd (snd (cleanup_twice destroy_throws st))))"
  by (simp add: cleanup_twice_def cleanup_def clearGraphPopover_def ensureAnimating_def animate_def Let_def
      split: option.splits)

text \<open>
  Two calls of cleanup call \<open>app.destroy()\<close> twice, and the second call throws when the
  library's \<open>destroy\<close> throws on an application that is already destroyed.
\<close>

theorem teardown_releases_twice:
  "destroy_calls hover_instance = 0 \<and>
   destroy_calls (snd (snd (cleanup_twice destroyed_app_throws hover_instance))) = 2 \<and>
   fst (cleanup_twice destroyed_app_throws hover_instance) = None \<and>
   fst (snd (cleanup_twice destroyed_app_throws hover_instance)) = Some DestroyThrew"
  by (simp add: cleanup_twice_def cleanup_def clearGraphPopover_def hover_instance_def mounted_def
      destroyed_app_throws_def)

section \<open>Popover\<close>

text \<open>
  Claim C8, as amended. When no popover element for the target is in the document: if
  the fetch rejects, or the content type of the response does not start with
  \<open>text/html\<close>, or the parsed body has no element of class \<open>popover-hint\<close>, then
  \<open>showGraphPopover\<close> returns without an error and mounts nothing: the state is the
  one \<open>clearGraphPopover\<close> leaves. The status of the response plays no part.
\<close>

theorem popover_silent_abort:
  assumes "''graph-popover-'' @ pathname \<notin> set (document_popovers (clearGraphPopover st))"
    and "fetched = None \<or>
         (\<exists>r. fetched = Some r \<and> \<not> startsWith (contentType r) ''text/html'') \<or>
         (\<exists>r. fetched = Some r \<and> popover_hints r = Some [])"
  shows "showGraphPopover pathname fetched st = Inr (clearGraphPopover st)"
  using assms by (auto simp: showGraphPopover_def Let_def)

text \<open>
An instance for each of the three cases.
\<close>

theorem popover_silent_abort_witness:
  "''graph-popover-/B'' \<notin> set (document_popovers (clearGraphPopover hover_instance)) \<and>
   showGraphPopover ''/B'' None hover_instance = Inr (clearGraphPopover hover_instance) \<and>
   \<not> startsWith (contentType (not_found_response\<lparr>content_type_header := Some ''application/json''\<rparr>)) ''text/html'' \<and>
   showGraphPopover ''/B'' (Some (not_found_response\<lparr>content_type_header := Some ''application/json''\<rparr>)) hover_instance =
     Inr (clearGraphPopover hover_instance) \<and>
   popover_hints (not_found_response\<lparr>popover_hints := Some []\<rparr>) = Some [] \<and>
   showGraphPopover ''/B'' (Some (not_found_response\<lparr>popover_hints := Some []\<rparr>)) hover_instance =
     Inr (clearGraphPopover hover_instance)"
proof -
  have a: "''graph-popover-'' @ ''/B'' \<notin> set (document_popovers (clearGraphPopover hover_instance))"
    by code_simp
  have a': "''graph-popover-/B'' \<notin> set (document_popovers (clearGraphPopover hover_instance))"
    by code_simp
  let ?r1 = "not_found_response\<lparr>content_type_header := Some ''application/json''\<rparr>"
  let ?r2 = "not_found_response\<lparr>popover_hints := Some []\<rparr>"
  have c1: "\<not> startsWith (contentType ?r1) ''text/html''" by code_simp
  have c2: "popover_hints ?r2 = Some []" by (simp add: not_found_response_def)
  have h0: "None = None \<or>
         (\<exists>r. (None :: Response option) = Some r \<and> \<not> startsWith (contentType r) ''text/html'') \<or>
         (\<exists>r. (None :: Response option) = Some r \<and> popover_hints r = Some [])"
    by (rule disjI1) (rule refl)
  have h1: "Some ?r1 = None \<or>
         (\<exists>r. Some ?r1 = Some r \<and> \<not> startsWith (contentType r) ''text/html'') \<or>
         (\<exists>r. Some ?r1 = Some r \<and> popover_hints r = Some [])"
    by (rule disjI2, rule disjI1, rule exI[of _ ?r1], rule conjI, rule refl, rule c1)
  have h2: "Some ?r2 = None \<or>
         (\<exists>r. Some ?r2 = Some r \<and> \<not> startsWith (contentType r) ''text/html'') \<or>
         (\<exists>r. Some ?r2 = Some r \<and> popover_hints r = Some [])"
    by (rule disjI2, rule disjI2, rule exI[of _ ?r2], rule conjI, rule refl, rule c2)
  note t0 = popover_silent_abort[OF a h0]
  note t1 = popover_silent_abort[OF a h1]
  note t2 = popover_silent_abort[OF a h2]
  show ?thesis by (intro conjI) (fact a' t0 c1 t1 c2 t2)+
qed

text \<open>
A response with status 404, content type \<open>text/html\<close> and a previewable element is mounted.
\<close>

theorem popover_on_not_found:
  "status not_found_response = 404 \<and>
   map_sum id (\<lambda>st. (activePopover st, document_popovers st))
     (showGraphPopover ''/B'' (Some not_found_response) hover_instance) =
   Inr (Some ''graph-popover-/B'', [''graph-popover-/B''])"
  by code_simp

section \<open>Zoom\<close>

lemma constrain_scale_range: "in_scaleExtent (constrain_scale zk)"
  by (simp add: in_scaleExtent_def constrain_scale_def scaleExtent_def max_def min_def)

lemma scaleOpacity_nonneg: "0 \<le> scaleOpacity cfg zk"
  by (simp add: scaleOpacity_def)

lemma scaleOpacity_mono:
  assumes "0 \<le> zk" and "zk \<le> zk'"
  shows "scaleOpacity cfg zk \<le> scaleOpacity cfg zk'"
proof (cases "0 \<le> opacityScale cfg")
  case True
  have "zk * opacityScale cfg \<le> zk' * opacityScale cfg"
    using assms(2) True by (rule mult_right_mono)
  then have "(zk * opacityScale cfg - 1) / 3.75 \<le> (zk' * opacityScale cfg - 1) / 3.75"
    by (simp add: divide_right_mono)
  then show ?thesis unfolding scaleOpacity_def by linarith
next
  case False
  then have neg: "opacityScale cfg \<le> 0" by simp
  have "0 \<le> zk'" using assms by simp
  then have a: "zk' * opacityScale cfg \<le> 0" using neg by (rule mult_nonneg_nonpos)
  have b: "zk * opacityScale cfg \<le> 0" using assms(1) neg by (rule mult_nonneg_nonpos)
  have "scaleOpacity cfg zk = 0" using b by (simp add: scaleOpacity_def max_def)
  moreover have "scaleOpacity cfg zk' = 0" using a by (simp add: scaleOpacity_def max_def)
  ultimately show ?thesis by simp
qed

lemma scaleOpacity_le_one:
  assumes "zk * opacityScale cfg \<le> 4.75"
  shows "scaleOpacity cfg zk \<le> 1"
  using assms unfolding scaleOpacity_def by simp

lemma zoom_handler_labels:
  "map label_alpha (nodeRenderData (zoom_handler cfg transform st)) =
     map (\<lambda>n. if n_active n then label_alpha n else scaleOpacity cfg (t_k transform)) (nodeRenderData st) \<and>
   map n_active (nodeRenderData (zoom_handler cfg transform st)) = map n_active (nodeRenderData st) \<and>
   currentTransform (zoom_handler cfg transform st) = transform \<and>
   stage_transform (zoom_handler cfg transform st) = transform"
  by (simp add: zoom_handler_def ensureAnimating_def)

text \<open>
  Claim C9, as amended. For every zoom event with zoom enabled, whatever scale is
  requested and whatever \<open>opacityScale\<close> is: the scale \<open>k\<close> of the transform that the
  handler stores and gives to the stage is in the scale range \<open>[0.25, 4]\<close>; every label
  of a node that is not active gets the opacity \<open>max ((k \<cdot> opacityScale - 1) / 3.75) 0\<close>,
  which is at least 0, does not decrease when the scale grows, and is at most 1 when
  \<open>k \<cdot> opacityScale \<le> 4.75\<close>; the labels of active nodes keep the opacity they had, and
  no node changes its active flag.
\<close>

theorem zoom_label_opacity:
  assumes "zoom cfg"
  shows "in_scaleExtent (t_k (currentTransform (zoom_event cfg requested st))) \<and>
         t_k (currentTransform (zoom_event cfg requested st)) = constrain_scale (t_k requested) \<and>
         stage_transform (zoom_event cfg requested st) = currentTransform (zoom_event cfg requested st) \<and>
         map label_alpha (nodeRenderData (zoom_event cfg requested st)) =
           map (\<lambda>n. if n_active n then label_alpha n
                    else scaleOpacity cfg (t_k (currentTransform (zoom_event cfg requested st))))
               (nodeRenderData st) \<and>
         map n_active (nodeRenderData (zoom_event cfg requested st)) = map n_active (nodeRenderData st) \<and>
         (\<forall>zk. 0 \<le> scaleOpacity cfg zk) \<and>
         (\<forall>zk zk'. 0 \<le> zk \<and> zk \<le> zk' \<longrightarrow> scaleOpacity cfg zk \<le> scaleOpacity cfg zk') \<and>
         (\<forall>zk. zk * opacityScale cfg \<le> 4.75 \<longrightarrow> scaleOpacity cfg zk \<le> 1)"
proof -
  let ?t = "requested\<lparr>t_k := constrain_scale (t_k requested)\<rparr>"
  have e: "zoom_event cfg requested st = zoom_handler cfg ?t st"
    using assms by (simp add: zoom_event_def)
  note h = zoom_handler_labels[of cfg ?t st]
  have k: "t_k (currentTransform (zoom_event cfg requested st)) = constrain_scale (t_k requested)"
    unfolding e using h by simp
  have a: "in_scaleExtent (t_k (currentTransform (zoom_event cfg requested st)))"
    unfolding k by (rule constrain_scale_range)
  have b: "stage_transform (zoom_event cfg requested st) = currentTransform (zoom_event cfg requested st)"
    unfolding e using h by simp
  have c: "map label_alpha (nodeRenderData (zoom_event cfg requested st)) =
           map (\<lambda>n. if n_active n then label_alpha n
                    else scaleOpacity cfg (t_k (currentTransform (zoom_event cfg requested st))))
               (nodeRenderData st)"
    unfolding k unfolding e using h by simp
  have d: "map n_active (nodeRenderData (zoom_event cfg requested st)) = map n_active (nodeRenderData st)"
    unfolding e using h by simp
  have f: "\<forall>zk. 0 \<le> scaleOpacity cfg zk" by (simp add: scaleOpacity_nonneg)
  have g: "\<forall>zk zk'. 0 \<le> zk \<and> zk \<le> zk' \<longrightarrow> scaleOpacity cfg zk \<le> scaleOpacity cfg zk'"
    by (simp add: scaleOpacity_mono)
  have i: "\<forall>zk. zk * opacityScale cfg \<le> 4.75 \<longrightarrow> scaleOpacity cfg zk \<le> 1"
    by (simp add: scaleOpacity_le_one)
  show ?thesis by (intro conjI) (fact a k b c d f g i)+
qed

text \<open>
  An instance: the scenario graph at depth 2, zoomed to scale 4 (all labels at opacity
  \<open>4/5\<close>), with \<open>A\<close> hovered, so that \<open>A\<close> and \<open>B\<close> are active and \<open>C\<close> is not. A zoom
  to scale 2 gives the label of \<open>C\<close> the opacity \<open>4/15\<close> and leaves the two others at
  \<open>4/5\<close>; a request for scale 10 is stored as scale 4.
\<close>

lemma zoomed_hover_instance_nodes:
  "map (\<lambda>n. (nd_id (n_simulationData n), n_active n, label_alpha n)) (nodeRenderData zoomed_hover_instance) =
     [(''A'', True, 4 / 5), (''B'', True, 4 / 5), (''C'', False, 4 / 5)]"
proof -
  have ids: "map nd_id (gd_nodes two_hop_graph) = [''A'', ''B'', ''C'']" by code_simp
  have lks: "map (\<lambda>l. (nd_id (ld_source l), nd_id (ld_target l))) (gd_links two_hop_graph) =
             [(''A'', ''B''), (''B'', ''A''), (''B'', ''C'')]" by code_simp
  let ?m = "mounted (scenario_cfg 2) (\<lambda>n. ''gray'') ''lightgray'' two_hop_graph"
  let ?z = "zoom_event (scenario_cfg 2) zoom_max ?m"
  have so: "scaleOpacity (scenario_cfg 2) (constrain_scale (t_k zoom_max)) = 4 / 5"
    by (simp add: scaleOpacity_def scenario_cfg_def zoom_max_def constrain_scale_def scaleExtent_def)
  have zm: "zoom (scenario_cfg 2)" by (simp add: scenario_cfg_def)
  have e: "?z = zoom_handler (scenario_cfg 2) (zoom_max\<lparr>t_k := constrain_scale (t_k zoom_max)\<rparr>) ?m"
    using zm by (simp add: zoom_event_def)
  have zn: "map (\<lambda>n. (nd_id (n_simulationData n), label_alpha n)) (nodeRenderData ?z) =
            map (\<lambda>i. (i, 4 / 5)) (map nd_id (gd_nodes two_hop_graph))"
    unfolding e by (simp add: zoom_handler_def ensureAnimating_def mounted_def so o_def)
  have zl: "map (\<lambda>l. (nd_id (ld_source (l_simulationData l)), nd_id (ld_target (l_simulationData l))))
              (linkRenderData ?z) =
            map (\<lambda>l. (nd_id (ld_source l), nd_id (ld_target l))) (gd_links two_hop_graph)"
    unfolding e by (simp add: zoom_handler_def ensureAnimating_def mounted_def o_def)
  have hn: "hover_neighbours ''A'' (linkRenderData ?z) =
            foldl (\<lambda>acc (s, t). if s = ''A'' \<or> t = ''A'' then set_add (set_add acc s) t else acc) []
              (map (\<lambda>l. (nd_id (ld_source (l_simulationData l)), nd_id (ld_target (l_simulationData l))))
                 (linkRenderData ?z))"
    by (simp add: hover_neighbours_def incident_def foldl_map)
  have hn': "hover_neighbours ''A'' (linkRenderData ?z) = [''A'', ''B'']"
    unfolding hn zl lks by (simp add: set_add_def)
  have "map (\<lambda>n. (nd_id (n_simulationData n), n_active n, label_alpha n)) (nodeRenderData zoomed_hover_instance) =
        map (\<lambda>(i, a). (i, i \<in> set [''A'', ''B''], a))
          (map (\<lambda>n. (nd_id (n_simulationData n), label_alpha n)) (nodeRenderData ?z))"
    unfolding zoomed_hover_instance_def
    by (simp add: updateHoverInfo_def Let_def hn' o_def)
  then show ?thesis unfolding zn ids by simp
qed

theorem zoom_label_opacity_witness:
  "zoom (scenario_cfg 2) \<and>
   map n_active (nodeRenderData zoomed_hover_instance) = [True, True, False] \<and>
   map label_alpha (nodeRenderData zoomed_hover_instance) = [4 / 5, 4 / 5, 4 / 5] \<and>
   t_k (currentTransform (zoom_event (scenario_cfg 2) zoom_in zoomed_hover_instance)) = 2 \<and>
   in_scaleExtent (t_k (currentTransform (zoom_event (scenario_cfg 2) zoom_in zoomed_hover_instance))) \<and>
   map label_alpha (nodeRenderData (zoom_event (scenario_cfg 2) zoom_in zoomed_hover_instance)) =
     [4 / 5, 4 / 5, 4 / 15] \<and>
   map n_active (nodeRenderData (zoom_event (scenario_cfg 2) zoom_in zoomed_hover_instance)) =
     [True, True, False] \<and>
   t_k zoom_far = 10 \<and>
   t_k (currentTransform (zoom_event (scenario_cfg 2) zoom_far zoomed_hover_instance)) = 4 \<and>
   in_scaleExtent (t_k (currentTransform (zoom_event (scenario_cfg 2) zoom_far zoomed_hover_instance))) \<and>
   scaleOpacity (scenario_cfg 2) 1 \<le> scaleOpacity (scenario_cfg 2) 2 \<and>
   scaleOpacity (scenario_cfg 2) 2 \<le> 1"
proof -
  have zm: "zoom (scenario_cfg 2)" by (simp add: scenario_cfg_def)
  note n = zoomed_hover_instance_nodes
  have act: "map n_active (nodeRenderData zoomed_hover_instance) = [True, True, False]"
    using n[THEN arg_cong, of "map (\<lambda>(i, a, l). a)"] by (simp add: o_def)
  have alp: "map label_alpha (nodeRenderData zoomed_hover_instance) = [4 / 5, 4 / 5, 4 / 5]"
    using n[THEN arg_cong, of "map (\<lambda>(i, a, l). l)"] by (simp add: o_def)
  have both: "map (\<lambda>n. (n_active n, label_alpha n)) (nodeRenderData zoomed_hover_instance) =
              [(True, 4 / 5), (True, 4 / 5), (False, 4 / 5)]"
    using n[THEN arg_cong, of "map (\<lambda>(i, a, l). (a, l))"] by (simp add: o_def)
  note z = zoom_label_opacity[OF zm, of zoom_in zoomed_hover_instance]
  note y = zoom_label_opacity[OF zm, of zoom_far zoomed_hover_instance]
  have k2: "constrain_scale (t_k zoom_in) = 2"
    by (simp add: constrain_scale_def scaleExtent_def zoom_in_def)
  have k4: "constrain_scale (t_k zoom_far) = 4"
    by (simp add: constrain_scale_def scaleExtent_def zoom_far_def)
  have a: "t_k (currentTransform (zoom_event (scenario_cfg 2) zoom_in zoomed_hover_instance)) = 2"
    using z[THEN conjunct2, THEN conjunct1] by (simp only: k2)
  note b = z[THEN conjunct1]
  have so: "scaleOpacity (scenario_cfg 2) 2 = 4 / 15"
    by (simp add: scaleOpacity_def scenario_cfg_def)
  have r: "map (\<lambda>n. if n_active n then label_alpha n else (4 / 15 :: real)) (nodeRenderData zoomed_hover_instance) =
           map (\<lambda>(a, l). if a then l else 4 / 15)
             (map (\<lambda>n. (n_active n, label_alpha n)) (nodeRenderData zoomed_hover_instance))"
    by (simp add: o_def)
  have c: "map label_alpha (nodeRenderData (zoom_event (scenario_cfg 2) zoom_in zoomed_hover_instance)) =
     [4 / 5, 4 / 5, 4 / 15]"
    using z[THEN conjunct2, THEN conjunct2, THEN conjunct2, THEN conjunct1]
    unfolding a so r both by simp
  have d: "map n_active (nodeRenderData (zoom_event (scenario_cfg 2) zoom_in zoomed_hover_instance)) =
     [True, True, False]"
    using z[THEN conjunct2, THEN conjunct2, THEN conjunct2, THEN conjunct2, THEN conjunct1]
    by (simp only: act)
  have f: "t_k zoom_far = 10" by (simp add: zoom_far_def)
  have g: "t_k (currentTransform (zoom_event (scenario_cfg 2) zoom_far zoomed_hover_instance)) = 4"
    using y[THEN conjunct2, THEN conjunct1] by (simp only: k4)
  note h = y[THEN conjunct1]
  have le: "(0 :: real) \<le> 1 \<and> (1 :: real) \<le> 2" by simp
  note i = z[THEN conjunct2, THEN conjunct2, THEN conjunct2, THEN conjunct2, THEN conjunct2,
             THEN conjunct2, THEN conjunct1, rule_format, OF le]
  have p: "2 * opacityScale (scenario_cfg 2) \<le> 4.75" by (simp add: scenario_cfg_def)
  note j = z[THEN conjunct2, THEN conjunct2, THEN conjunct2, THEN conjunct2, THEN conjunct2,
             THEN conjunct2, THEN conjunct2, rule_format, OF p]
  show ?thesis by (intro conjI) (fact zm act alp a b c d f g h i j)+
qed

text \<open>
  With \<open>opacityScale = 2\<close> the opacity at scale 4, which is in the scale range, is
  \<open>28/15\<close>, above 1.
\<close>

theorem zoom_opacity_above_one:
  "zoom wide_cfg \<and>
   t_k (currentTransform (zoom_event wide_cfg zoom_max hover_instance)) = 4 \<and>
   in_scaleExtent (t_k (currentTransform (zoom_event wide_cfg zoom_max hover_instance))) \<and>
   scaleOpacity wide_cfg 4 = 28 / 15 \<and>
   1 < scaleOpacity wide_cfg 4 \<and>
   map label_alpha (nodeRenderData (zoom_event wide_cfg zoom_max hover_instance)) = [28 / 15, 28 / 15]"
proof -
  have zm: "zoom wide_cfg" by (simp add: wide_cfg_def scenario_cfg_def)
  have k4: "constrain_scale (t_k zoom_max) = 4"
    by (simp add: constrain_scale_def scaleExtent_def zoom_max_def)
  have e: "zoom_event wide_cfg zoom_max hover_instance =
           zoom_handler wide_cfg (zoom_max\<lparr>t_k := 4\<rparr>) hover_instance"
    using zm by (simp add: zoom_event_def k4)
  have k: "t_k (currentTransform (zoom_event wide_cfg zoom_max hover_instance)) = 4"
    unfolding e by (simp add: zoom_handler_labels)
  have a: "in_scaleExtent (t_k (currentTransform (zoom_event wide_cfg zoom_max hover_instance)))"
    unfolding k by (simp add: in_scaleExtent_def scaleExtent_def)
  have so: "scaleOpacity wide_cfg 4 = 28 / 15"
    by (simp add: scaleOpacity_def wide_cfg_def scenario_cfg_def)
  have b: "1 < scaleOpacity wide_cfg 4" unfolding so by simp
  have act: "map n_active (nodeRenderData hover_instance) = [False, False]" by code_simp
  have len: "map (\<lambda>n. if n_active n then label_alpha n else (28 / 15 :: real)) (nodeRenderData hover_instance)
             = map (\<lambda>b. if b then 0 else 28 / 15) (map n_active (nodeRenderData hover_instance))"
    by (simp add: hover_instance_def mounted_def)
  have m: "map label_alpha (nodeRenderData (zoom_handler wide_cfg (zoom_max\<lparr>t_k := 4\<rparr>) hover_instance)) =
           map (\<lambda>n. if n_active n then label_alpha n else (28 / 15 :: real)) (nodeRenderData hover_instance)"
    using zoom_handler_labels[of wide_cfg "zoom_max\<lparr>t_k := 4\<rparr>" hover_instance, THEN conjunct1]
    by (simp add: so)
  have c: "map label_alpha (nodeRenderData (zoom_event wide_cfg zoom_max hover_instance)) = [28 / 15, 28 / 15]"
    unfolding e m len act by simp
  show ?thesis by (intro conjI) (fact zm k a so b c)+
qed

end
